theory Spec2Isabelle
  imports Complex_Main "HOL-Library.Monad_Syntax"
begin

section \<open>Strings, colours and configuration\<close>

text \<open>
  The program is Python 3. A Python \<open>str\<close> is a sequence of Unicode code points and
  \<open>len\<close> counts code points; the glyph tables and labels use box-drawing characters,
  so a string is modelled as the list of its code points. \<open>ascii\<close> embeds an ASCII
  literal.
\<close>

type_synonym uchar = nat
type_synonym ustring = "nat list"

definition ascii :: "string \<Rightarrow> ustring" where
  "ascii s = map of_char s"

text \<open>class \<open>Colors\<close>: the ANSI escape sequences (\<open>\033\<close> is code point 27).\<close>

definition RESET :: ustring where "RESET = 27 # ascii ''[0m''"
definition RED :: ustring where "RED = 27 # ascii ''[91m''"
definition GREEN :: ustring where "GREEN = 27 # ascii ''[92m''"
definition YELLOW :: ustring where "YELLOW = 27 # ascii ''[93m''"
definition BLUE :: ustring where "BLUE = 27 # ascii ''[94m''"
definition MAGENTA :: ustring where "MAGENTA = 27 # ascii ''[95m''"
definition CYAN :: ustring where "CYAN = 27 # ascii ''[96m''"
definition GRAY :: ustring where "GRAY = 27 # ascii ''[90m''"
definition WHITE :: ustring where "WHITE = 27 # ascii ''[97m''"
definition BLACK :: ustring where "BLACK = 27 # ascii ''[30m''"

text \<open>The dataclass \<open>ClockConfig\<close> and its method \<open>get_color\<close>.\<close>

record ClockConfig =
  focus :: bool
  bold :: bool
  white :: bool
  black :: bool
  bell_enabled :: bool

definition get_color :: "ClockConfig \<Rightarrow> ustring \<Rightarrow> ustring" where
  "get_color cfg default_color =
     (if white cfg then WHITE else if black cfg then BLACK else default_color)"

section \<open>Glyph tables\<close>

text \<open>
  \<open>SEGMENTS\<close> and \<open>SEGMENTS_BOLD\<close>: a dictionary from a character to its four rows,
  kept as an association list in the order of the source (keys are distinct), looked
  up with \<open>map_of\<close>. Code points: 48..57 are the digits, 58 the colon, 32 the space;
  9472.. are the box-drawing characters and 9679 the black circle.
\<close>

definition SEGMENTS :: "(uchar \<times> ustring list) list" where
  "SEGMENTS =
    [(48, [[9484, 9472, 9472, 9472, 9488], [9474, 32, 32, 32, 9474], [9474, 32, 32, 32, 9474], [9492, 9472, 9472, 9472, 9496]]),
     (49, [[32, 32, 32, 32, 9488], [32, 32, 32, 32, 9474], [32, 32, 32, 32, 9474], [32, 32, 32, 32, 9524]]),
     (50, [[9484, 9472, 9472, 9472, 9488], [32, 32, 32, 32, 9474], [9484, 9472, 9472, 9472, 9496], [9492, 9472, 9472, 9472, 9496]]),
     (51, [[9484, 9472, 9472, 9472, 9488], [32, 32, 32, 32, 9474], [32, 32, 9472, 9472, 9508], [9492, 9472, 9472, 9472, 9496]]),
     (52, [[9488, 32, 32, 32, 9488], [9492, 9472, 9472, 9472, 9508], [32, 32, 32, 32, 9474], [32, 32, 32, 32, 9496]]),
     (53, [[9484, 9472, 9472, 9472, 9488], [9492, 9472, 9472, 9472, 9488], [9484, 32, 32, 32, 9474], [9492, 9472, 9472, 9472, 9496]]),
     (54, [[9484, 9472, 9472, 9472, 9488], [9500, 9472, 9472, 9472, 9488], [9474, 32, 32, 32, 9474], [9492, 9472, 9472, 9472, 9496]]),
     (55, [[9484, 9472, 9472, 9472, 9488], [32, 32, 32, 32, 9474], [32, 32, 32, 32, 9474], [32, 32, 32, 32, 9496]]),
     (56, [[9484, 9472, 9472, 9472, 9488], [9500, 9472, 9472, 9472, 9508], [9474, 32, 32, 32, 9474], [9492, 9472, 9472, 9472, 9496]]),
     (57, [[9484, 9472, 9472, 9472, 9488], [9492, 9472, 9472, 9472, 9508], [32, 32, 32, 32, 9474], [32, 32, 32, 32, 9496]]),
     (58, [[32], [9679], [9679], [32]]),
     (32, [[32, 32, 32, 32, 32], [32, 32, 32, 32, 32], [32, 32, 32, 32, 32], [32, 32, 32, 32, 32]])]"

definition SEGMENTS_BOLD :: "(uchar \<times> ustring list) list" where
  "SEGMENTS_BOLD =
    [(48, [[9556, 9552, 9552, 9552, 9552, 9552, 9559], [9553, 32, 32, 32, 32, 32, 9553], [9553, 32, 32, 32, 32, 32, 9553], [9562, 9552, 9552, 9552, 9552, 9552, 9565]]),
     (49, [[32, 32, 32, 32, 32, 32, 9553], [32, 32, 32, 32, 32, 32, 9553], [32, 32, 32, 32, 32, 32, 9553], [32, 32, 32, 32, 32, 32, 9553]]),
     (50, [[9556, 9552, 9552, 9552, 9552, 9552, 9559], [32, 32, 32, 32, 32, 32, 9553], [9556, 9552, 9552, 9552, 9552, 9552, 9565], [9562, 9552, 9552, 9552, 9552, 9552, 9565]]),
     (51, [[9556, 9552, 9552, 9552, 9552, 9552, 9559], [32, 32, 32, 32, 32, 32, 9553], [32, 9552, 9552, 9552, 9552, 9552, 9571], [9562, 9552, 9552, 9552, 9552, 9552, 9565]]),
     (52, [[9559, 32, 32, 32, 32, 32, 9553], [9553, 32, 32, 32, 32, 32, 9553], [9562, 9552, 9552, 9552, 9552, 9552, 9571], [32, 32, 32, 32, 32, 32, 9553]]),
     (53, [[9556, 9552, 9552, 9552, 9552, 9552, 9559], [9553, 32, 32, 32, 32, 32, 32], [9562, 9552, 9552, 9552, 9552, 9552, 9559], [9562, 9552, 9552, 9552, 9552, 9552, 9565]]),
     (54, [[9556, 9552, 9552, 9552, 9552, 9552, 9559], [9553, 32, 32, 32, 32, 32, 32], [9568, 9552, 9552, 9552, 9552, 9552, 9559], [9562, 9552, 9552, 9552, 9552, 9552, 9565]]),
     (55, [[9556, 9552, 9552, 9552, 9552, 9552, 9559], [32, 32, 32, 32, 32, 32, 9553], [32, 32, 32, 32, 32, 32, 9553], [32, 32, 32, 32, 32, 32, 9553]]),
     (56, [[9556, 9552, 9552, 9552, 9552, 9552, 9559], [9553, 32, 32, 32, 32, 32, 9553], [9568, 9552, 9552, 9552, 9552, 9552, 9571], [9562, 9552, 9552, 9552, 9552, 9552, 9565]]),
     (57, [[9556, 9552, 9552, 9552, 9552, 9552, 9559], [9553, 32, 32, 32, 32, 32, 9553], [9562, 9552, 9552, 9552, 9552, 9552, 9571], [9562, 9552, 9552, 9552, 9552, 9552, 9565]]),
     (58, [[32], [9679], [9679], [32]]),
     (32, [[32, 32, 32, 32, 32, 32, 32], [32, 32, 32, 32, 32, 32, 32], [32, 32, 32, 32, 32, 32, 32], [32, 32, 32, 32, 32, 32, 32]])]"

text \<open>Display height constants for cursor positioning.\<close>

definition DISPLAY_LINES_TIME_ONLY :: int where "DISPLAY_LINES_TIME_ONLY = 5"
definition DISPLAY_LINES_WITH_LABEL :: int where "DISPLAY_LINES_WITH_LABEL = 7"
definition DISPLAY_LINES_FOCUS_WITH_BAR :: int where "DISPLAY_LINES_FOCUS_WITH_BAR = 8"
definition DISPLAY_LINES_WITH_BAR :: int where "DISPLAY_LINES_WITH_BAR = 9"
definition MIN_BAR_LENGTH :: int where "MIN_BAR_LENGTH = 20"
definition MAX_BAR_LENGTH :: int where "MAX_BAR_LENGTH = 100"
definition BAR_MARGIN :: int where "BAR_MARGIN = 20"

section \<open>Glyph rendering (the loop of \<open>Display.print_time\<close>)\<close>

text \<open>
  The inner loop \<open>for i in range(4): lines[i] += segments[char][i] + ' '\<close>, as a fold
  over the four indices with list update.
\<close>

definition add_glyph :: "ustring list \<Rightarrow> ustring list \<Rightarrow> ustring list" where
  "add_glyph lines g = foldl (\<lambda>ls i. ls[i := ls ! i @ g ! i @ [32]]) lines [0, 1, 2, 3]"

text \<open>The outer loop over the characters: a character that is not a key is skipped.\<close>

fun render_loop :: "(uchar \<times> ustring list) list \<Rightarrow> ustring \<Rightarrow> ustring list \<Rightarrow> ustring list" where
  "render_loop segs [] lines = lines"
| "render_loop segs (c # cs) lines =
     (case map_of segs c of
        None \<Rightarrow> render_loop segs cs lines
      | Some g \<Rightarrow> render_loop segs cs (add_glyph lines g))"

definition render_rows :: "bool \<Rightarrow> ustring \<Rightarrow> ustring list" where
  "render_rows bld time_str =
     render_loop (if bld then SEGMENTS_BOLD else SEGMENTS) time_str (replicate 4 [])"

text \<open>
  \<open>Display.print_time\<close>: the arguments of its \<open>print\<close> calls, in order (each call
  writes its argument and a newline). \<open>w\<close> is what \<open>TerminalUtils.get_width()\<close>
  returns.
\<close>

definition print_time :: "ClockConfig \<Rightarrow> int \<Rightarrow> ustring \<Rightarrow> ustring \<Rightarrow> bool \<Rightarrow> ustring list" where
  "print_time cfg w time_str color move_back =
     (let lines = render_rows (bold cfg) time_str;
          col = get_color cfg color
      in (if move_back then [] else [[]])
         @ map (\<lambda>line. replicate (nat (max 0 ((w - int (length line)) div 2))) 32
                        @ col @ line @ RESET) lines
         @ [[]])"

section \<open>Formatting seconds\<close>

text \<open>
  Python's decimal rendering of a non-negative integer, and the format \<open>:02d\<close>
  (zero-padded to width 2, the sign counted in the width).
\<close>

fun dec_digits :: "nat \<Rightarrow> ustring" where
  "dec_digits n = (if n < 10 then [48 + n] else dec_digits (n div 10) @ [48 + n mod 10])"

declare dec_digits.simps [simp del]

definition fmt_02d :: "int \<Rightarrow> ustring" where
  "fmt_02d x =
     (if x < 0 then 45 # dec_digits (nat (- x))
      else if x < 10 then 48 # dec_digits (nat x)
      else dec_digits (nat x))"

text \<open>\<open>format_time\<close>; \<open>//\<close> and \<open>%\<close> are floor division and its remainder, as \<open>div\<close>
  and \<open>mod\<close> on \<open>int\<close>.\<close>

definition format_time :: "int \<Rightarrow> ustring" where
  "format_time seconds =
     (let hours = seconds div 3600;
          minutes = (seconds mod 3600) div 60;
          secs = seconds mod 60
      in if hours > 0
         then fmt_02d hours @ [58] @ fmt_02d minutes @ [58] @ fmt_02d secs
         else fmt_02d minutes @ [58] @ fmt_02d secs)"


section \<open>Parsing durations\<close>

text \<open>
  Exceptions of the program are values. \<open>ValueError\<close> carries its message.
\<close>

datatype py_error = ValueError ustring | ZeroDivisionError

text \<open>
  The builtin \<open>int(s)\<close> on a string, base 10, as CPython reads it. Code points from
  127 on are first mapped to ASCII: a Unicode space to a blank, a Unicode decimal
  digit to its ASCII digit (the table lists the zero of each block of ten, Unicode
  14.0), anything else to a question mark. The result is read as: ASCII white space
  (9..13 and 32), an optional sign, digits with single underscores between them,
  white space. Python integers are unbounded (\<open>int\<close>); the interpreter's optional
  limit on the number of digits of a literal is a setting of the interpreter and is
  not modelled.
\<close>

definition UNICODE_SPACES :: "uchar list" where
  "UNICODE_SPACES =
     [133, 160, 5760, 8192, 8193, 8194, 8195, 8196, 8197, 8198, 8199, 8200, 8201, 8202,
      8232, 8233, 8239, 8287, 12288]"

definition DECIMAL_ZEROS :: "uchar list" where
  "DECIMAL_ZEROS =
     [1632, 1776, 1984, 2406, 2534, 2662, 2790, 2918, 3046, 3174, 3302, 3430, 3558,
      3664, 3792, 3872, 4160, 4240, 6112, 6160, 6470, 6608, 6784, 6800, 6992, 7088,
      7232, 7248, 42528, 43216, 43264, 43472, 43504, 43600, 44016, 65296, 66720, 68912,
      69734, 69872, 69942, 70096, 70384, 70736, 70864, 71248, 71360, 71472, 71904,
      72016, 72784, 73040, 73120, 92768, 92864, 93008, 120782, 120792, 120802, 120812,
      120822, 123200, 123632, 125264, 130032]"

definition to_ascii :: "uchar \<Rightarrow> uchar" where
  "to_ascii c =
     (if c < 127 then c
      else if c \<in> set UNICODE_SPACES then 32
      else (case filter (\<lambda>z. z \<le> c \<and> c < z + 10) DECIMAL_ZEROS of
              z # _ \<Rightarrow> 48 + (c - z)
            | [] \<Rightarrow> 63))"

definition py_isspace :: "uchar \<Rightarrow> bool" where
  "py_isspace c = ((9 \<le> c \<and> c \<le> 13) \<or> c = 32)"

text \<open>
  The digits: \<open>prev\<close> says that the character before was a digit. An underscore is
  accepted only after a digit and must be followed by one; reading stops at the first
  other character, which is returned with the rest.
\<close>

fun scan_digits :: "bool \<Rightarrow> ustring \<Rightarrow> nat \<Rightarrow> (nat \<times> ustring) option" where
  "scan_digits prev [] acc = (if prev then Some (acc, []) else None)"
| "scan_digits prev (c # cs) acc =
     (if 48 \<le> c \<and> c \<le> 57 then scan_digits True cs (acc * 10 + (c - 48))
      else if c = 95 then (if prev then scan_digits False cs acc else None)
      else if prev then Some (acc, c # cs) else None)"

definition py_int :: "ustring \<Rightarrow> int option" where
  "py_int s =
     (let b = dropWhile py_isspace (map to_ascii s);
          (sign, c) = (case b of
                         [] \<Rightarrow> (1, b)
                       | x # r \<Rightarrow> if x = 43 then (1, r) else if x = 45 then (- 1, r) else (1, b))
      in case scan_digits False c 0 of
           None \<Rightarrow> None
         | Some (v, rest) \<Rightarrow> if list_all py_isspace rest then Some (sign * int v) else None)"

text \<open>\<open>str.split(sep)\<close> for a separator of one character: never an empty list.\<close>

fun split_on :: "uchar \<Rightarrow> ustring \<Rightarrow> ustring list" where
  "split_on sep [] = [[]]"
| "split_on sep (c # cs) =
     (if c = sep then [] # split_on sep cs
      else (case split_on sep cs of
              p # ps \<Rightarrow> (c # p) # ps
            | [] \<Rightarrow> [[c]]))"

definition DURATION_MSG :: ustring where
  "DURATION_MSG = ascii ''Duration must be in format: MM:SS, HH:MM:SS, or seconds''"

text \<open>
  \<open>parse_duration\<close>: inside the \<open>try\<close>, \<open>None\<close> stands for the \<open>ValueError\<close> of
  \<open>int\<close> or of the last branch; the handler turns every one of them into the
  \<open>ValueError\<close> with the fixed message. The parts are converted from left to right.
\<close>

definition parse_duration_try :: "ustring list \<Rightarrow> int option" where
  "parse_duration_try parts =
     (case parts of
        [p0] \<Rightarrow> py_int p0
      | [p0, p1] \<Rightarrow> do { m \<leftarrow> py_int p0; s \<leftarrow> py_int p1; Some (m * 60 + s) }
      | [p0, p1, p2] \<Rightarrow>
          do { h \<leftarrow> py_int p0; m \<leftarrow> py_int p1; s \<leftarrow> py_int p2;
               Some (h * 3600 + m * 60 + s) }
      | _ \<Rightarrow> None)"

definition parse_duration :: "ustring \<Rightarrow> py_error + int" where
  "parse_duration duration_str =
     (case parse_duration_try (split_on 58 duration_str) of
        None \<Rightarrow> Inl (ValueError DURATION_MSG)
      | Some secs \<Rightarrow> Inr secs)"

section \<open>Labels and the progress bar\<close>

text \<open>
  Floating point is idealised: a Python \<open>float\<close> is a rational here, so a time stamp,
  a difference of time stamps and the progress fraction are exact. \<open>int(x)\<close> on a
  float truncates towards zero.
\<close>

definition py_trunc :: "rat \<Rightarrow> int" where
  "py_trunc x = (if 0 \<le> x then \<lfloor>x\<rfloor> else \<lceil>x\<rceil>)"

text \<open>The format \<open>:.1f\<close>: one decimal, rounded to the nearest tenth, ties to even.\<close>

definition round_half_even :: "rat \<Rightarrow> int" where
  "round_half_even q =
     (let f = \<lfloor>q\<rfloor>; r = q - of_int f
      in if r < 1 / 2 then f else if 1 / 2 < r then f + 1 else if even f then f else f + 1)"

definition fmt_1f :: "rat \<Rightarrow> ustring" where
  "fmt_1f x =
     (let t = nat (round_half_even (\<bar>x\<bar> * 10))
      in (if x < 0 then [45] else []) @ dec_digits (t div 10) @ [46] @ dec_digits (t mod 10))"

text \<open>\<open>TerminalUtils.center_padding\<close>, with the terminal width as a parameter.\<close>

definition center_padding :: "int \<Rightarrow> int \<Rightarrow> int" where
  "center_padding w text_length = max 0 ((w - text_length) div 2)"

text \<open>\<open>' ' * n\<close>: the empty string for a negative \<open>n\<close>.\<close>

definition spaces :: "int \<Rightarrow> ustring" where
  "spaces n = replicate (nat n) 32"

text \<open>
  \<open>Display.print_label\<close> and \<open>Display.print_progress_bar\<close>: the arguments of their
  \<open>print\<close> calls. Code point 13 is the carriage return, 10 the newline, 9608 the
  full block and 9617 the light shade.
\<close>

definition print_label :: "ClockConfig \<Rightarrow> int \<Rightarrow> ustring \<Rightarrow> ustring \<Rightarrow> ustring list" where
  "print_label cfg w label color =
     (let col = get_color cfg color;
          padding = center_padding w (int (length label))
      in [[13] @ spaces w @ [13] @ spaces padding @ col @ label @ RESET @ [10]])"

definition print_progress_bar :: "ClockConfig \<Rightarrow> int \<Rightarrow> rat \<Rightarrow> ustring \<Rightarrow> ustring list" where
  "print_progress_bar cfg w progress color =
     (let bar_length = max MIN_BAR_LENGTH (min MAX_BAR_LENGTH (w - BAR_MARGIN));
          bar_padding = max 0 ((w - bar_length - 10) div 2);
          filled = py_trunc (of_int bar_length * progress);
          bar = replicate (nat filled) 9608 @ replicate (nat (bar_length - filled)) 9617;
          bar_color = get_color cfg color
      in [spaces bar_padding @ [91] @ bar_color @ bar @ RESET @ [93, 32]
            @ fmt_1f (progress * 100) @ [37],
          []])"

section \<open>Frames and effects\<close>

text \<open>
  What a mode does is a list of effects, in order. A frame is the state one iteration
  of a loop draws; \<open>frame_prints\<close> gives the \<open>print\<close> calls that draw it, as the source
  makes them.
\<close>

datatype frame =
    ClockFrame bool ustring ustring
  | StopwatchFrame int bool
  | CountdownFrame int bool ustring ustring rat

datatype effect =
    ClearScreen
  | MoveUp int
  | Draw frame
  | Print ustring
  | Bell
  | Sleep rat

definition PAUSED_TEXT :: ustring where
  "PAUSED_TEXT = 9208 # ascii '' Paused''"

text \<open>
  \<open>ClockFrame move_back time_str date_str\<close>: lines 282-284 and 296-298 of the source.
  \<open>StopwatchFrame elapsed paused\<close>: lines 340-353.
  \<open>CountdownFrame remaining paused label color progress\<close>: lines 393-410.
  Code point 9208 is the pause sign, 9654 the play sign.
\<close>

fun frame_prints :: "ClockConfig \<Rightarrow> int \<Rightarrow> frame \<Rightarrow> ustring list" where
  "frame_prints cfg w (ClockFrame move_back time_str date_str) =
     print_time cfg w time_str CYAN move_back
     @ (if \<not> focus cfg then print_label cfg w date_str MAGENTA else [])"
| "frame_prints cfg w (StopwatchFrame elapsed paused) =
     print_time cfg w (format_time elapsed) BLUE True
     @ (if \<not> focus cfg
        then print_label cfg w
               (if paused then 9208 # ascii '' Paused (q: resume, r: reset)''
                else 9654 # ascii '' Running (q: pause, r: reset)'') MAGENTA
        else if paused
        then [spaces (center_padding w (int (length PAUSED_TEXT)))
                @ get_color cfg GRAY @ PAUSED_TEXT @ RESET @ [10]]
        else [[]])"
| "frame_prints cfg w (CountdownFrame remaining paused label color progress) =
     print_time cfg w (format_time remaining) color True
     @ (if \<not> focus cfg
        then print_label cfg w
               (if paused then 9208 # ascii '' Paused - '' @ label
                else 9654 # ascii '' '' @ label) MAGENTA
        else if paused
        then [[13] @ spaces w @ [13] @ spaces (center_padding w (int (length PAUSED_TEXT)))
                @ get_color cfg GRAY @ PAUSED_TEXT @ RESET]
        else [[13] @ spaces w @ [13]])
     @ print_progress_bar cfg w progress (if \<not> focus cfg then color else GRAY)"

text \<open>
  The number of lines the cursor goes down by: each \<open>print\<close> ends its text with a
  newline, and the text may hold newlines of its own.
\<close>

definition lines_printed :: "ustring list \<Rightarrow> nat" where
  "lines_printed prints = sum_list (map (\<lambda>s. count_list s 10 + 1) prints)"

section \<open>The environment and the outcome of a run\<close>

text \<open>
  The loops run until the user interrupts them, so a run is described on a finite
  script of what the environment does at each point where the program waits: an
  iteration of a loop (its key poll and its sleep) or a sleep between two phases.
  \<open>Tick key\<close>: nothing interrupts the program there, and \<open>get_key()\<close> returns \<open>key\<close>
  (\<open>None\<close> when no key is waiting; a sleep between phases reads no key). \<open>CtrlC\<close>:
  \<open>KeyboardInterrupt\<close> is raised there, before the iteration draws anything.

  A run ends in \<open>Returns v\<close>, in \<open>Raises e\<close> (an exception that is not
  \<open>KeyboardInterrupt\<close> leaves the function), or in \<open>Pending\<close>: the script is used up and
  the loop is still running. The terminal calls themselves are assumed to succeed.
\<close>

datatype event = Tick "ustring option" | CtrlC

datatype 'a outcome = Returns 'a | Raises py_error | Pending

section \<open>The countdown\<close>

text \<open>True division \<open>/\<close> of two integers raises on a zero divisor.\<close>

definition py_truediv :: "int \<Rightarrow> int \<Rightarrow> py_error + rat" where
  "py_truediv a b = (if b = 0 then Inl ZeroDivisionError else Inr (of_int a / of_int b))"

text \<open>Line 408: \<open>(total_seconds - remaining) / total_seconds if total_seconds > 0 else 1.0\<close>.\<close>

definition progress_of :: "int \<Rightarrow> int \<Rightarrow> py_error + rat" where
  "progress_of total_seconds remaining =
     (if total_seconds > 0 then py_truediv (total_seconds - remaining) total_seconds
      else Inr 1)"

definition countdown_lines_to_move :: "ClockConfig \<Rightarrow> int" where
  "countdown_lines_to_move cfg =
     (if focus cfg then DISPLAY_LINES_FOCUS_WITH_BAR else DISPLAY_LINES_WITH_BAR)"

text \<open>
  The loop \<open>while remaining >= 0\<close> of \<open>countdown_timer\<close>, with its three variables.
  It returns the effects, the outcome (\<open>Returns True\<close> when interrupted) and the part
  of the script it has not used.
\<close>

fun countdown_loop ::
  "int \<Rightarrow> ustring \<Rightarrow> ustring \<Rightarrow> ClockConfig \<Rightarrow> int \<Rightarrow> bool \<Rightarrow> bool \<Rightarrow> event list
     \<Rightarrow> effect list \<times> bool outcome \<times> event list" where
  "countdown_loop total_seconds label color cfg remaining paused first_iteration [] =
     (if remaining \<ge> 0 then ([], Pending, []) else ([], Returns False, []))"
| "countdown_loop total_seconds label color cfg remaining paused first_iteration (e # es) =
     (if remaining \<ge> 0 then
        (case e of
           CtrlC \<Rightarrow> ([Print []], Returns True, es)
         | Tick key \<Rightarrow>
             (let paused' = (if key = Some (ascii ''q'') then \<not> paused else paused);
                  pre = (if \<not> first_iteration
                         then [Sleep 1, MoveUp (countdown_lines_to_move cfg)] else [])
              in case progress_of total_seconds remaining of
                   Inl err \<Rightarrow> (pre, Raises err, es)
                 | Inr progress \<Rightarrow>
                     (case countdown_loop total_seconds label color cfg
                             (if \<not> paused' then remaining - 1 else remaining) paused' False es of
                        (tr, out, rest) \<Rightarrow>
                          (pre @ [Draw (CountdownFrame remaining paused' label color progress)] @ tr,
                           out, rest))))
      else ([], Returns False, e # es))"

definition countdown_timer ::
  "int \<Rightarrow> ustring \<Rightarrow> ustring \<Rightarrow> ClockConfig \<Rightarrow> event list
     \<Rightarrow> effect list \<times> bool outcome \<times> event list" where
  "countdown_timer total_seconds label color cfg es =
     countdown_loop total_seconds label color cfg total_seconds False True es"

section \<open>Timer mode\<close>

definition bell :: "ClockConfig \<Rightarrow> effect list" where
  "bell cfg = (if bell_enabled cfg then [Bell] else [])"

text \<open>
  \<open>timer_mode\<close>: both validation errors print a line and return; the value the
  countdown returns is not used, and the bell rings after it either way.
\<close>

definition timer_mode :: "ustring \<Rightarrow> ClockConfig \<Rightarrow> event list \<Rightarrow> effect list \<times> unit outcome" where
  "timer_mode duration_str cfg es =
     (case parse_duration duration_str of
        Inl (ValueError msg) \<Rightarrow> ([Print (RED @ ascii ''Error: '' @ msg @ RESET)], Returns ())
      | Inl ZeroDivisionError \<Rightarrow> ([], Raises ZeroDivisionError)
      | Inr total_seconds \<Rightarrow>
          if total_seconds \<le> 0
          then ([Print (RED @ ascii ''Error: Duration must be positive'' @ RESET)], Returns ())
          else (case countdown_timer total_seconds (ascii ''Countdown Timer'') YELLOW cfg es of
                  (tr, Returns b, rest) \<Rightarrow> (ClearScreen # tr @ bell cfg, Returns ())
                | (tr, Raises err, rest) \<Rightarrow> (ClearScreen # tr, Raises err)
                | (tr, Pending, rest) \<Rightarrow> (ClearScreen # tr, Pending)))"

section \<open>Pomodoro mode\<close>

definition session_label :: "nat \<Rightarrow> ustring \<Rightarrow> ustring" where
  "session_label session phase = ascii ''Session '' @ dec_digits session @ ascii '' - '' @ phase"

text \<open>
  \<open>time.sleep(2)\<close> between two phases, inside the \<open>try\<close> of \<open>pomodoro_mode\<close>: it uses one
  event of the script. \<open>None\<close>: the script is used up; \<open>Some None\<close>: interrupted;
  \<open>Some (Some es)\<close>: the sleep is over.
\<close>

fun sleep_2 :: "event list \<Rightarrow> event list option option" where
  "sleep_2 [] = None"
| "sleep_2 (CtrlC # es) = Some None"
| "sleep_2 (Tick key # es) = Some (Some es)"

text \<open>
  One pass of the body of \<open>while True\<close> in \<open>pomodoro_mode\<close>. \<open>Inr es\<close>: the pass has
  reached \<open>session += 1\<close>, with the script \<open>es\<close> left; \<open>Inl out\<close>: the loop is over
  (\<open>break\<close> after an interrupted countdown, the handler of \<open>KeyboardInterrupt\<close>, an
  exception) or the script is used up.
\<close>

definition pomodoro_pass ::
  "int \<Rightarrow> int \<Rightarrow> ClockConfig \<Rightarrow> nat \<Rightarrow> event list
     \<Rightarrow> effect list \<times> (unit outcome + event list)" where
  "pomodoro_pass work_minutes break_minutes cfg session es =
     (case countdown_timer (work_minutes * 60) (session_label session (ascii ''Work'')) RED cfg es of
        (tr1, Pending, es1) \<Rightarrow> (ClearScreen # tr1, Inl Pending)
      | (tr1, Raises err, es1) \<Rightarrow> (ClearScreen # tr1, Inl (Raises err))
      | (tr1, Returns True, es1) \<Rightarrow> (ClearScreen # tr1, Inl (Returns ()))
      | (tr1, Returns False, es1) \<Rightarrow>
          (case sleep_2 es1 of
             None \<Rightarrow> (ClearScreen # tr1 @ bell cfg @ [Sleep 2], Inl Pending)
           | Some None \<Rightarrow> (ClearScreen # tr1 @ bell cfg @ [Sleep 2, Print []], Inl (Returns ()))
           | Some (Some es2) \<Rightarrow>
               (case countdown_timer (break_minutes * 60)
                       (session_label session (ascii ''Break'')) GREEN cfg es2 of
                  (tr2, Pending, es3) \<Rightarrow>
                    (ClearScreen # tr1 @ bell cfg @ [Sleep 2, ClearScreen] @ tr2, Inl Pending)
                | (tr2, Raises err, es3) \<Rightarrow>
                    (ClearScreen # tr1 @ bell cfg @ [Sleep 2, ClearScreen] @ tr2, Inl (Raises err))
                | (tr2, Returns True, es3) \<Rightarrow>
                    (ClearScreen # tr1 @ bell cfg @ [Sleep 2, ClearScreen] @ tr2, Inl (Returns ()))
                | (tr2, Returns False, es3) \<Rightarrow>
                    (case sleep_2 es3 of
                       None \<Rightarrow>
                         (ClearScreen # tr1 @ bell cfg @ [Sleep 2, ClearScreen] @ tr2
                            @ bell cfg @ [Sleep 2], Inl Pending)
                     | Some None \<Rightarrow>
                         (ClearScreen # tr1 @ bell cfg @ [Sleep 2, ClearScreen] @ tr2
                            @ bell cfg @ [Sleep 2, Print []], Inl (Returns ()))
                     | Some (Some es4) \<Rightarrow>
                         (ClearScreen # tr1 @ bell cfg @ [Sleep 2, ClearScreen] @ tr2
                            @ bell cfg @ [Sleep 2], Inr es4)))))"

text \<open>The countdown hands back a suffix of its script, so each pass that goes on to
  the next session has used at least its two sleeps.\<close>

lemma countdown_loop_rest:
  "countdown_loop t l c cfg r p f es = (tr, out, rest) \<Longrightarrow> length rest \<le> length es"
proof (induction es arbitrary: r p f tr out rest)
  case Nil
  then show ?case by (simp split: if_splits)
next
  case (Cons e es)
  show ?case
  proof (cases "r \<ge> 0")
    case False
    with Cons.prems show ?thesis by simp
  next
    case True
    show ?thesis
    proof (cases e)
      case CtrlC
      with True Cons.prems show ?thesis by auto
    next
      case (Tick key)
      show ?thesis
      proof (cases "progress_of t r")
        case (Inl err)
        with True Tick Cons.prems show ?thesis by (auto simp: Let_def)
      next
        case (Inr pr)
        obtain tr' out' rest' where
          rec: "countdown_loop t l c cfg
                  (if \<not> (if key = Some (ascii ''q'') then \<not> p else p) then r - 1 else r)
                  (if key = Some (ascii ''q'') then \<not> p else p) False es = (tr', out', rest')"
          using prod_cases3 by blast
        from Cons.IH [OF rec] have "length rest' \<le> length es" .
        moreover from True Tick Inr rec Cons.prems have "rest = rest'"
          by (simp add: Let_def)
        ultimately show ?thesis by simp
      qed
    qed
  qed
qed

lemma sleep_2_rest: "sleep_2 es = Some (Some es') \<Longrightarrow> length es' < length es"
  by (induction es rule: sleep_2.induct) auto

lemma pomodoro_pass_rest:
  assumes "pomodoro_pass w b cfg n es = (tr, Inr es')"
  shows "length es' < length es"
proof -
  obtain tr1 out1 es1 where
    c1: "countdown_timer (w * 60) (session_label n (ascii ''Work'')) RED cfg es = (tr1, out1, es1)"
    using prod_cases3 by blast
  from c1 assms have o1: "out1 = Returns False"
    by (auto simp: pomodoro_pass_def split: outcome.splits bool.splits)
  from c1 assms o1 obtain es2 where s1: "sleep_2 es1 = Some (Some es2)"
    by (auto simp: pomodoro_pass_def split: option.splits)
  obtain tr2 out2 es3 where
    c2: "countdown_timer (b * 60) (session_label n (ascii ''Break'')) GREEN cfg es2 = (tr2, out2, es3)"
    using prod_cases3 by blast
  from c1 o1 s1 c2 assms have o2: "out2 = Returns False"
    by (auto simp: pomodoro_pass_def split: outcome.splits bool.splits)
  from c1 o1 s1 c2 o2 assms have s2: "sleep_2 es3 = Some (Some es')"
    by (auto simp: pomodoro_pass_def split: option.splits)
  have "length es1 \<le> length es"
    using c1 by (auto simp: countdown_timer_def dest: countdown_loop_rest)
  moreover have "length es2 < length es1"
    using s1 by (rule sleep_2_rest)
  moreover have "length es3 \<le> length es2"
    using c2 by (auto simp: countdown_timer_def dest: countdown_loop_rest)
  moreover have "length es' < length es3"
    using s2 by (rule sleep_2_rest)
  ultimately show ?thesis by simp
qed

function pomodoro_loop ::
  "int \<Rightarrow> int \<Rightarrow> ClockConfig \<Rightarrow> nat \<Rightarrow> event list \<Rightarrow> effect list \<times> unit outcome" where
  "pomodoro_loop work_minutes break_minutes cfg session es =
     (case pomodoro_pass work_minutes break_minutes cfg session es of
        (tr, Inl out) \<Rightarrow> (tr, out)
      | (tr, Inr es') \<Rightarrow>
          (case pomodoro_loop work_minutes break_minutes cfg (Suc session) es' of
             (tr', out) \<Rightarrow> (tr @ tr', out)))"
  by pat_completeness auto
termination
  by (relation "measure (\<lambda>(w, b, cfg, n, es). length es)")
     (auto dest: pomodoro_pass_rest [OF sym])

declare pomodoro_loop.simps [simp del]

definition pomodoro_mode :: "int \<Rightarrow> int \<Rightarrow> ClockConfig \<Rightarrow> event list \<Rightarrow> effect list \<times> unit outcome" where
  "pomodoro_mode work_minutes break_minutes cfg es =
     pomodoro_loop work_minutes break_minutes cfg 1 es"

section \<open>The stopwatch\<close>

text \<open>
  The five variables of \<open>stopwatch_mode\<close>. An iteration reads the wall clock up to
  twice: \<open>t1\<close> is what \<open>time.time()\<close> returns where the key is handled (lines 324,
  326 and 329), \<open>t2\<close> what it returns at line 334. The first reading, \<open>t0\<close>, is the
  start time. The configuration reaches only the drawing of a frame (\<open>frame_prints\<close>):
  the loop itself, and the number of lines it moves up by, do not depend on it.
\<close>

record stopwatch =
  start_time :: rat
  elapsed :: int
  paused :: bool
  pause_start :: rat
  first_iteration :: bool

datatype sw_event = SwTick "ustring option" rat rat | SwCtrlC

text \<open>Lines 321-331: the key.\<close>

definition stopwatch_key :: "ustring option \<Rightarrow> rat \<Rightarrow> stopwatch \<Rightarrow> stopwatch" where
  "stopwatch_key key t1 st =
     (if key = Some (ascii ''q'') then
        (if \<not> paused st
         then st\<lparr>paused := True, pause_start := t1\<rparr>
         else st\<lparr>paused := False, start_time := start_time st + (t1 - pause_start st)\<rparr>)
      else if key = Some (ascii ''r'') then
        st\<lparr>start_time := t1, elapsed := 0, paused := False\<rparr>
      else st)"

text \<open>Lines 333-334: the elapsed time, while not paused.\<close>

definition stopwatch_elapsed :: "rat \<Rightarrow> stopwatch \<Rightarrow> stopwatch" where
  "stopwatch_elapsed t2 st =
     (if \<not> paused st then st\<lparr>elapsed := py_trunc (t2 - start_time st)\<rparr> else st)"

definition stopwatch_tick :: "ustring option \<Rightarrow> rat \<Rightarrow> rat \<Rightarrow> stopwatch \<Rightarrow> stopwatch" where
  "stopwatch_tick key t1 t2 st = stopwatch_elapsed t2 (stopwatch_key key t1 st)"

definition stopwatch_lines_to_move :: int where
  "stopwatch_lines_to_move = DISPLAY_LINES_WITH_LABEL"

fun stopwatch_loop :: "stopwatch \<Rightarrow> sw_event list \<Rightarrow> effect list \<times> unit outcome" where
  "stopwatch_loop st [] = ([], Pending)"
| "stopwatch_loop st (SwCtrlC # es) = ([Print []], Returns ())"
| "stopwatch_loop st (SwTick key t1 t2 # es) =
     (let st' = stopwatch_tick key t1 t2 st
      in case stopwatch_loop (st'\<lparr>first_iteration := False\<rparr>) es of
           (tr, out) \<Rightarrow>
             ((if \<not> first_iteration st then [MoveUp stopwatch_lines_to_move] else [])
              @ [Draw (StopwatchFrame (elapsed st') (paused st')), Sleep (1 / 10)] @ tr, out))"

text \<open>The state an iteration leaves, for a script without interrupts.\<close>

fun stopwatch_run :: "stopwatch \<Rightarrow> sw_event list \<Rightarrow> stopwatch" where
  "stopwatch_run st [] = st"
| "stopwatch_run st (SwCtrlC # es) = st"
| "stopwatch_run st (SwTick key t1 t2 # es) =
     stopwatch_run ((stopwatch_tick key t1 t2 st)\<lparr>first_iteration := False\<rparr>) es"

definition stopwatch_init :: "rat \<Rightarrow> stopwatch" where
  "stopwatch_init t0 =
     \<lparr>start_time = t0, elapsed = 0, paused = False, pause_start = 0, first_iteration = True\<rparr>"

definition stopwatch_mode :: "rat \<Rightarrow> sw_event list \<Rightarrow> effect list \<times> unit outcome" where
  "stopwatch_mode t0 es =
     (case stopwatch_loop (stopwatch_init t0) es of (tr, out) \<Rightarrow> (ClearScreen # tr, out))"

section \<open>Clock mode\<close>

text \<open>
  \<open>ClkTick time_str date_str\<close>: the sleep of an iteration is over and the two
  \<open>strftime\<close> calls on \<open>datetime.now()\<close> return these strings.
\<close>

datatype clk_event = ClkTick ustring ustring | ClkCtrlC

definition clock_lines_to_move :: "ClockConfig \<Rightarrow> int" where
  "clock_lines_to_move cfg =
     (if \<not> focus cfg then DISPLAY_LINES_WITH_LABEL else DISPLAY_LINES_TIME_ONLY)"

fun clock_loop :: "ClockConfig \<Rightarrow> clk_event list \<Rightarrow> effect list \<times> unit outcome" where
  "clock_loop cfg [] = ([], Pending)"
| "clock_loop cfg (ClkCtrlC # es) = ([Print []], Returns ())"
| "clock_loop cfg (ClkTick time_str date_str # es) =
     (case clock_loop cfg es of
        (tr, out) \<Rightarrow>
          ([Sleep 1, MoveUp (clock_lines_to_move cfg), Draw (ClockFrame True time_str date_str)] @ tr,
           out))"

definition clock_mode :: "ClockConfig \<Rightarrow> ustring \<times> ustring \<Rightarrow> clk_event list \<Rightarrow> effect list \<times> unit outcome" where
  "clock_mode cfg now es =
     (case clock_loop cfg es of
        (tr, out) \<Rightarrow> (ClearScreen # Draw (ClockFrame False (fst now) (snd now)) # tr, out))"

section \<open>The entry point\<close>

text \<open>The namespace \<open>argparse\<close> returns, and the environment of the run.\<close>

record Args =
  arg_focus :: bool
  arg_bold :: bool
  arg_white :: bool
  arg_black :: bool
  arg_no_bell :: bool
  arg_pomodoro :: "ustring option"
  arg_stopwatch :: bool
  arg_timer :: "ustring option"

record world =
  key_events :: "event list"
  stopwatch_t0 :: rat
  stopwatch_events :: "sw_event list"
  clock_now :: "ustring \<times> ustring"
  clock_events :: "clk_event list"

text \<open>
  \<open>work_min, break_min = map(int, args.pomodoro.split(','))\<close>: a \<open>ValueError\<close>
  (\<open>None\<close>) unless there are exactly two parts and both are integers.
\<close>

definition parse_pomodoro :: "ustring \<Rightarrow> (int \<times> int) option" where
  "parse_pomodoro s =
     (case split_on 44 s of
        [p0, p1] \<Rightarrow> do { w \<leftarrow> py_int p0; b \<leftarrow> py_int p1; Some (w, b) }
      | _ \<Rightarrow> None)"

definition POMODORO_MSG :: ustring where
  "POMODORO_MSG = RED @ ascii ''Error: Pomodoro format is W,B (e.g., 25,5)'' @ RESET"

definition COLOR_MSG :: ustring where
  "COLOR_MSG = RED @ ascii ''Error: --white and --black are mutually exclusive'' @ RESET"

definition error_text :: "py_error \<Rightarrow> ustring" where
  "error_text e = (case e of ValueError msg \<Rightarrow> msg | ZeroDivisionError \<Rightarrow> ascii ''division by zero'')"

text \<open>
  The handler \<open>except Exception\<close> around the dispatch, and the exit status of the
  process: 0 when \<open>main\<close> returns, 1 after \<open>sys.exit(1)\<close>.
\<close>

definition after_mode :: "effect list \<times> unit outcome \<Rightarrow> effect list \<times> int outcome" where
  "after_mode r =
     (case r of
        (tr, Returns u) \<Rightarrow> (tr, Returns 0)
      | (tr, Raises e) \<Rightarrow>
          (tr @ [Print (RED @ ascii ''Unexpected error: '' @ error_text e @ RESET)], Returns 1)
      | (tr, Pending) \<Rightarrow> (tr, Pending))"

text \<open>
  The truth value of an optional string argument: \<open>None\<close> and the empty string are
  false. \<open>truthy\<close> gives the string when the argument is true.
\<close>

definition truthy :: "ustring option \<Rightarrow> ustring option" where
  "truthy a = (case a of None \<Rightarrow> None | Some s \<Rightarrow> if s = [] then None else Some s)"

text \<open>The dispatch of \<open>main\<close>, lines 535-569, \<open>argparse\<close> having read the command line.\<close>

definition main :: "Args \<Rightarrow> world \<Rightarrow> effect list \<times> int outcome" where
  "main args env =
     (if arg_white args \<and> arg_black args then ([Print COLOR_MSG], Returns 1)
      else
        let config = \<lparr>focus = arg_focus args, bold = arg_bold args, white = arg_white args,
                       black = arg_black args, bell_enabled = \<not> arg_no_bell args\<rparr>
        in case truthy (arg_pomodoro args) of
             Some pomodoro \<Rightarrow>
               (case parse_pomodoro pomodoro of
                  None \<Rightarrow> ([Print POMODORO_MSG], Returns 1)
                | Some (work_min, break_min) \<Rightarrow>
                    if work_min \<le> 0 \<or> break_min \<le> 0 then ([Print POMODORO_MSG], Returns 1)
                    else (case pomodoro_mode work_min break_min config (key_events env) of
                            (tr, Raises (ValueError msg)) \<Rightarrow> (tr @ [Print POMODORO_MSG], Returns 1)
                          | r \<Rightarrow> after_mode r))
           | None \<Rightarrow>
               if arg_stopwatch args then
                 after_mode (stopwatch_mode (stopwatch_t0 env) (stopwatch_events env))
               else (case truthy (arg_timer args) of
                       Some timer \<Rightarrow> after_mode (timer_mode timer config (key_events env))
                     | None \<Rightarrow> after_mode (clock_mode config (clock_now env) (clock_events env))))"

section \<open>Vocabulary of the properties\<close>

text \<open>The characters the glyph tables know, and the columns one of them adds to a row:
  the width of its glyph and one separator.\<close>

definition known_char :: "uchar \<Rightarrow> bool" where
  "known_char c = (c \<in> set (ascii ''0123456789: ''))"

definition glyph_cols :: "bool \<Rightarrow> uchar \<Rightarrow> nat" where
  "glyph_cols bld c =
     (if c = 58 then 2 else if known_char c then (if bld then 8 else 6) else 0)"

definition segs :: "bool \<Rightarrow> (uchar \<times> ustring list) list" where
  "segs bld = (if bld then SEGMENTS_BOLD else SEGMENTS)"

text \<open>The character of a decimal digit.\<close>

definition digit_char :: "int \<Rightarrow> uchar" where
  "digit_char d = 48 + nat d"

text \<open>The characters a part of a duration can hold when \<open>int\<close> accepts it: digits,
  the underscore, a sign and ASCII white space.\<close>

definition numeric_char :: "uchar \<Rightarrow> bool" where
  "numeric_char c = ((48 \<le> c \<and> c \<le> 57) \<or> c = 95 \<or> c = 43 \<or> c = 45 \<or> py_isspace c)"


text \<open>
  The countdown frames of a trace, as (remaining, paused, progress); a script entry
  that neither pauses nor interrupts; the values \<open>r, r - 1, \<dots>\<close> (\<open>k\<close> of them); and
  the effects of a countdown that draws the values \<open>rs\<close> without a pause: a sleep of one
  second and the cursor movement before every frame but the first of the run.
\<close>

fun countdown_frames :: "effect list \<Rightarrow> (int \<times> bool \<times> rat) list" where
  "countdown_frames [] = []"
| "countdown_frames (Draw (CountdownFrame r p l c pr) # tr) = (r, p, pr) # countdown_frames tr"
| "countdown_frames (e # tr) = countdown_frames tr"

definition running_tick :: "event \<Rightarrow> bool" where
  "running_tick e = (case e of Tick key \<Rightarrow> key \<noteq> Some (ascii ''q'') | CtrlC \<Rightarrow> False)"

fun count_down :: "int \<Rightarrow> nat \<Rightarrow> int list" where
  "count_down r 0 = []"
| "count_down r (Suc k) = r # count_down (r - 1) k"

fun loop_trace :: "int \<Rightarrow> ustring \<Rightarrow> ustring \<Rightarrow> ClockConfig \<Rightarrow> bool \<Rightarrow> int list \<Rightarrow> effect list" where
  "loop_trace T l c cfg first [] = []"
| "loop_trace T l c cfg first (r # rs) =
     (if \<not> first then [Sleep 1, MoveUp (countdown_lines_to_move cfg)] else [])
     @ [Draw (CountdownFrame r False l c (of_int (T - r) / of_int T))]
     @ loop_trace T l c cfg False rs"

text \<open>
  A list of countdown frames follows from the value \<open>r\<close>: the first frame shows \<open>r\<close>,
  which is not negative, and the next shows one less, or the same value when the frame
  is paused.
\<close>

fun frames_follow :: "int \<Rightarrow> (int \<times> bool \<times> rat) list \<Rightarrow> bool" where
  "frames_follow r [] = True"
| "frames_follow r ((r', p, pr) # fs) =
     (r' = r \<and> 0 \<le> r' \<and> frames_follow (if p then r' else r' - 1) fs)"

text \<open>The value of the progress expression.\<close>

definition progress_val :: "int \<Rightarrow> int \<Rightarrow> rat" where
  "progress_val T r = (if 0 < T then of_int (T - r) / of_int T else 1)"

text \<open>The default values of the fields of \<open>ClockConfig\<close>.\<close>

definition default_config :: ClockConfig where
  "default_config =
     \<lparr>focus = False, bold = False, white = False, black = False, bell_enabled = True\<rparr>"

text \<open>
  The stopwatch frames of a trace, as (elapsed, paused), and a stopwatch iteration
  whose poll finds neither the pause key nor the reset key.
\<close>

fun stopwatch_frames :: "effect list \<Rightarrow> (int \<times> bool) list" where
  "stopwatch_frames [] = []"
| "stopwatch_frames (Draw (StopwatchFrame e p) # tr) = (e, p) # stopwatch_frames tr"
| "stopwatch_frames (x # tr) = stopwatch_frames tr"

definition idle_tick :: "sw_event \<Rightarrow> bool" where
  "idle_tick e =
     (case e of
        SwTick key t1 t2 \<Rightarrow> key \<noteq> Some (ascii ''q'') \<and> key \<noteq> Some (ascii ''r'')
      | SwCtrlC \<Rightarrow> False)"

text \<open>The labels of the countdown frames of a trace.\<close>

fun frame_labels :: "effect list \<Rightarrow> ustring list" where
  "frame_labels [] = []"
| "frame_labels (Draw (CountdownFrame r p l c pr) # tr) = l # frame_labels tr"
| "frame_labels (x # tr) = frame_labels tr"

text \<open>The namespace of a command line without options.\<close>

definition default_args :: Args where
  "default_args =
     \<lparr>arg_focus = False, arg_bold = False, arg_white = False, arg_black = False,
      arg_no_bell = False, arg_pomodoro = None, arg_stopwatch = False, arg_timer = None\<rparr>"

section \<open>Properties of the glyph renderer and of the formatting\<close>


lemma ascii_simps [simp]: "ascii [] = []" "ascii (c # cs) = of_char c # ascii cs"
  by (simp_all add: ascii_def)

lemma replicate4: "replicate 4 x = [x, x, x, x]"
  by (simp add: numeral_eq_Suc)

lemma length4: "length ls = 4 \<Longrightarrow> \<exists>a b c d. ls = [a, b, c, d]"
  by (auto simp: length_Suc_conv numeral_eq_Suc)

lemma add_glyph_rows:
  "add_glyph [a, b, c, d] [p, q, r, s] = [a @ p @ [32], b @ q @ [32], c @ r @ [32], d @ s @ [32]]"
  by (simp add: add_glyph_def)

lemma add_glyph_widths:
  assumes "map length ls = replicate 4 n" and "map length g = replicate 4 k"
  shows "map length (add_glyph ls g) = replicate 4 (n + k + 1)"
proof -
  from assms(1) have "length ls = 4"
    by (metis length_map length_replicate)
  then obtain a b c d where ls: "ls = [a, b, c, d]"
    using length4 by blast
  from assms(2) have "length g = 4"
    by (metis length_map length_replicate)
  then obtain p q r s where g: "g = [p, q, r, s]"
    using length4 by blast
  from assms show ?thesis
    unfolding ls g by (simp add: add_glyph_rows replicate4)
qed

lemma segments_None: "\<not> known_char c \<Longrightarrow> map_of SEGMENTS c = None"
  unfolding SEGMENTS_def known_char_def by simp

lemma segments_Some:
  "known_char c \<Longrightarrow> \<exists>g. map_of SEGMENTS c = Some g \<and> map length g = replicate 4 (glyph_cols False c - 1)"
  unfolding SEGMENTS_def known_char_def glyph_cols_def
  by (auto simp: replicate4)

lemma segments_bold_None: "\<not> known_char c \<Longrightarrow> map_of SEGMENTS_BOLD c = None"
  unfolding SEGMENTS_BOLD_def known_char_def by simp

lemma segments_bold_Some:
  "known_char c \<Longrightarrow> \<exists>g. map_of SEGMENTS_BOLD c = Some g \<and> map length g = replicate 4 (glyph_cols True c - 1)"
  unfolding SEGMENTS_BOLD_def known_char_def glyph_cols_def
  by (auto simp: replicate4)


lemma segs_None: "\<not> known_char c \<Longrightarrow> map_of (segs bld) c = None"
  by (simp add: segs_def segments_None segments_bold_None)

lemma segs_Some:
  "known_char c \<Longrightarrow>
   \<exists>g. map_of (segs bld) c = Some g \<and> map length g = replicate 4 (glyph_cols bld c - 1)"
  using segments_Some [of c] segments_bold_Some [of c] by (simp add: segs_def)

lemma glyph_cols_known: "known_char c \<Longrightarrow> 0 < glyph_cols bld c"
  by (simp add: glyph_cols_def)

lemma glyph_cols_unknown: "\<not> known_char c \<Longrightarrow> glyph_cols bld c = 0"
  by (auto simp: glyph_cols_def known_char_def)

lemma render_loop_widths:
  "map length ls = replicate 4 n \<Longrightarrow>
   map length (render_loop (segs bld) str ls)
     = replicate 4 (n + sum_list (map (glyph_cols bld) str))"
proof (induction str arbitrary: ls n)
  case Nil
  then show ?case by simp
next
  case (Cons c cs)
  show ?case
  proof (cases "known_char c")
    case False
    then show ?thesis
      using Cons by (simp add: segs_None glyph_cols_unknown)
  next
    case True
    then obtain g where g: "map_of (segs bld) c = Some g"
      and w: "map length g = replicate 4 (glyph_cols bld c - 1)"
      using segs_Some by blast
    have "map length (add_glyph ls g) = replicate 4 (n + (glyph_cols bld c - 1) + 1)"
      using Cons.prems w by (rule add_glyph_widths)
    then have "map length (add_glyph ls g) = replicate 4 (n + glyph_cols bld c)"
      using glyph_cols_known [OF True, of bld] by simp
    from Cons.IH [OF this] show ?thesis
      by (simp add: g add.assoc)
  qed
qed

lemma render_loop_filter:
  "render_loop (segs bld) (filter known_char str) ls = render_loop (segs bld) str ls"
proof (induction str arbitrary: ls)
  case Nil
  then show ?case by simp
next
  case (Cons c cs)
  then show ?case
    by (cases "known_char c") (auto simp: segs_None dest: segs_Some [of _ bld])
qed

lemma render_rows_segs: "render_rows bld str = render_loop (segs bld) str (replicate 4 [])"
  by (simp add: render_rows_def segs_def)

text \<open>
  Claim C9. For every input string and either style, glyph rendering gives exactly four
  rows of one width: each known character (a digit, the colon, the space) adds the
  width of its glyph and one separator column to every row, and a character that is
  not known adds nothing, so that dropping the unknown characters changes no row;
  rendering \<open>1x\<close> is rendering \<open>1\<close>.
\<close>

theorem render_rows_shape:
  "length (render_rows bld str) = 4
   \<and> map length (render_rows bld str) = replicate 4 (sum_list (map (glyph_cols bld) str))
   \<and> render_rows bld (filter known_char str) = render_rows bld str
   \<and> sum_list (map (glyph_cols bld) (filter known_char str)) = sum_list (map (glyph_cols bld) str)
   \<and> render_rows bld (ascii ''1x'') = render_rows bld (ascii ''1'')"
proof -
  have w: "map length (render_rows bld str) = replicate 4 (sum_list (map (glyph_cols bld) str))"
    using render_loop_widths [of "replicate 4 []" 0 bld str]
    by (simp add: render_rows_segs)
  then have l: "length (render_rows bld str) = 4"
    by (metis length_map length_replicate)
  have f: "render_rows bld (filter known_char str) = render_rows bld str"
    by (simp add: render_rows_segs render_loop_filter)
  have s: "sum_list (map (glyph_cols bld) (filter known_char str)) = sum_list (map (glyph_cols bld) str)"
    by (induction str) (simp_all add: glyph_cols_unknown)
  have "filter known_char (ascii ''1x'') = ascii ''1''"
    by (simp add: known_char_def)
  then have e: "render_rows bld (ascii ''1x'') = render_rows bld (ascii ''1'')"
    using render_rows_segs render_loop_filter by metis
  from w l f s e show ?thesis by simp
qed

theorem render_rows_shape_witness:
  "map length (render_rows False (ascii ''12:34'')) = [26, 26, 26, 26]
   \<and> length (render_rows True (ascii ''12:34'')) = 4"
  using render_rows_shape [of False "ascii ''12:34''"] render_rows_shape [of True "ascii ''12:34''"]
  by (simp add: glyph_cols_def known_char_def replicate4)

lemma dec_digits_one: "n < 10 \<Longrightarrow> dec_digits n = [48 + n]"
  by (simp add: dec_digits.simps)

lemma dec_digits_two: "10 \<le> n \<Longrightarrow> n < 100 \<Longrightarrow> dec_digits n = [48 + n div 10, 48 + n mod 10]"
  by (subst dec_digits.simps) (simp add: dec_digits_one)

lemma fmt_02d_two:
  assumes "0 \<le> x" and "x < 100"
  shows "fmt_02d x = [digit_char (x div 10), digit_char (x mod 10)]"
proof (cases "x < 10")
  case True
  with assms show ?thesis
    by (simp add: fmt_02d_def dec_digits_one digit_char_def)
next
  case False
  with assms have "10 \<le> nat x" "nat x < 100" by auto
  then have "dec_digits (nat x) = [48 + nat x div 10, 48 + nat x mod 10]"
    by (rule dec_digits_two)
  moreover have "nat x div 10 = nat (x div 10)" "nat x mod 10 = nat (x mod 10)"
    using assms by (simp_all add: nat_div_distrib nat_mod_distrib)
  ultimately show ?thesis
    using False assms by (simp add: fmt_02d_def digit_char_def)
qed

lemma fmt_02d_hours:
  "0 < h \<Longrightarrow> fmt_02d h = (if h < 10 then [48, digit_char h] else dec_digits (nat h))"
  by (simp add: fmt_02d_def dec_digits_one digit_char_def)

text \<open>
  Claim C7. For every non-negative number of seconds, \<open>format_time\<close> gives the two
  digits of the minutes, a colon and the two digits of the seconds below one hour, and
  from one hour on the hours (padded with a zero to two digits), the minutes and the
  seconds, each on two digits; 3599 gives \<open>59:59\<close> and 3600 gives \<open>01:00:00\<close>.
\<close>

theorem format_time_shape:
  assumes "0 \<le> s"
  shows "(s < 3600 \<longrightarrow>
            format_time s = [digit_char (s div 60 div 10), digit_char (s div 60 mod 10), 58,
                             digit_char (s mod 60 div 10), digit_char (s mod 60 mod 10)])
       \<and> (3600 \<le> s \<longrightarrow>
            format_time s =
              (if s div 3600 < 10 then [48, digit_char (s div 3600)]
               else dec_digits (nat (s div 3600)))
              @ [58, digit_char (s mod 3600 div 60 div 10), digit_char (s mod 3600 div 60 mod 10), 58,
                 digit_char (s mod 60 div 10), digit_char (s mod 60 mod 10)])
       \<and> format_time 3599 = ascii ''59:59''
       \<and> format_time 3600 = ascii ''01:00:00''"
proof -
  have secs: "fmt_02d (s mod 60) = [digit_char (s mod 60 div 10), digit_char (s mod 60 mod 10)]"
    by (rule fmt_02d_two) simp_all
  have mins: "fmt_02d (s mod 3600 div 60)
      = [digit_char (s mod 3600 div 60 div 10), digit_char (s mod 3600 div 60 mod 10)]"
  proof (rule fmt_02d_two)
    show "0 \<le> s mod 3600 div 60" by (simp add: pos_imp_zdiv_nonneg_iff)
    have "s mod 3600 < 3600" by simp
    then show "s mod 3600 div 60 < 100" by arith
  qed
  have small: "format_time s = [digit_char (s div 60 div 10), digit_char (s div 60 mod 10), 58,
                             digit_char (s mod 60 div 10), digit_char (s mod 60 mod 10)]"
    if "s < 3600"
  proof -
    from that assms have "s div 3600 = 0" "s mod 3600 = s" by simp_all
    with secs mins show ?thesis by (simp add: format_time_def)
  qed
  have big: "format_time s =
              (if s div 3600 < 10 then [48, digit_char (s div 3600)]
               else dec_digits (nat (s div 3600)))
              @ [58, digit_char (s mod 3600 div 60 div 10), digit_char (s mod 3600 div 60 mod 10), 58,
                 digit_char (s mod 60 div 10), digit_char (s mod 60 mod 10)]"
    if "3600 \<le> s"
  proof -
    from that have h: "0 < s div 3600"
      by (simp add: pos_imp_zdiv_pos_iff)
    with secs mins show ?thesis
      by (simp add: format_time_def fmt_02d_hours)
  qed
  have a: "format_time 3599 = ascii ''59:59''"
    by (simp add: format_time_def fmt_02d_def dec_digits.simps)
  have b: "format_time 3600 = ascii ''01:00:00''"
    by (simp add: format_time_def fmt_02d_def dec_digits.simps)
  from small big a b show ?thesis by blast
qed

theorem format_time_shape_witness:
  "(0::int) \<le> 3661 \<and> format_time 3661 = ascii ''01:01:01'' \<and> format_time 75 = ascii ''01:15''"
  using format_time_shape [of 3661] format_time_shape [of 75]
  by (simp add: digit_char_def)

section \<open>Properties of the duration parser\<close>


lemma scan_digits_digit:
  "k < 10 \<Longrightarrow> scan_digits p ((48 + k) # rest) a = scan_digits True rest (a * 10 + k)"
  by simp

lemma scan_digits_dec:
  "scan_digits p (dec_digits n @ rest) acc
     = scan_digits True rest (acc * 10 ^ length (dec_digits n) + n)"
proof (induction n arbitrary: p rest acc rule: dec_digits.induct)
  case (1 n)
  show ?case
  proof (cases "n < 10")
    case True
    then show ?thesis by (simp add: dec_digits_one)
  next
    case False
    have d: "dec_digits n = dec_digits (n div 10) @ [48 + n mod 10]"
      using False by (subst dec_digits.simps) simp
    have "scan_digits p (dec_digits n @ rest) acc
        = scan_digits p (dec_digits (n div 10) @ ((48 + n mod 10) # rest)) acc"
      by (simp add: d)
    also have "\<dots> = scan_digits True ((48 + n mod 10) # rest)
                       (acc * 10 ^ length (dec_digits (n div 10)) + n div 10)"
      using False by (intro "1.IH") simp
    also have "\<dots> = scan_digits True rest
                       ((acc * 10 ^ length (dec_digits (n div 10)) + n div 10) * 10 + n mod 10)"
      by (rule scan_digits_digit) simp
    also have "(acc * 10 ^ length (dec_digits (n div 10)) + n div 10) * 10 + n mod 10
             = acc * 10 ^ length (dec_digits n) + n"
      by (simp add: d algebra_simps)
    finally show ?thesis .
  qed
qed

lemma dec_digits_chars: "c \<in> set (dec_digits n) \<Longrightarrow> 48 \<le> c \<and> c \<le> 57"
proof (induction n rule: dec_digits.induct)
  case (1 n)
  show ?case
  proof (cases "n < 10")
    case True
    with "1.prems" show ?thesis by (simp add: dec_digits_one)
  next
    case False
    have d: "dec_digits n = dec_digits (n div 10) @ [48 + n mod 10]"
      using False by (subst dec_digits.simps) simp
    from "1.prems" have "c \<in> set (dec_digits (n div 10) @ [48 + n mod 10])"
      by (simp only: d [symmetric])
    then have "c \<in> set (dec_digits (n div 10)) \<or> c = 48 + n mod 10" by auto
    then show ?thesis
    proof
      assume "c \<in> set (dec_digits (n div 10))"
      with False "1.IH" show ?thesis by simp
    next
      assume "c = 48 + n mod 10"
      moreover have "n mod 10 < 10" by simp
      ultimately show ?thesis by linarith
    qed
  qed
qed

lemma dec_digits_nonempty: "dec_digits n \<noteq> []"
  by (subst dec_digits.simps) simp

lemma py_int_dec: "py_int (dec_digits n) = Some (int n)"
proof -
  obtain d ds where dd: "dec_digits n = d # ds"
    using dec_digits_nonempty by (cases "dec_digits n") auto
  have dig: "\<forall>c \<in> set (dec_digits n). 48 \<le> c \<and> c \<le> 57"
    using dec_digits_chars by blast
  then have "map to_ascii (dec_digits n) = dec_digits n"
    by (intro map_idI) (auto simp: to_ascii_def)
  moreover have "48 \<le> d \<and> d \<le> 57" using dig dd by simp
  then have "dropWhile py_isspace (d # ds) = d # ds" "d \<noteq> 43" "d \<noteq> 45"
    by (auto simp: py_isspace_def)
  moreover have "scan_digits False (d # ds) 0 = Some (n, [])"
    using scan_digits_dec [of False n "[]" 0] by (simp add: dd)
  ultimately show ?thesis
    by (simp add: py_int_def dd)
qed

lemma split_on_nonempty: "split_on sep s \<noteq> []"
  by (induction s) (auto split: list.splits)

lemma split_on_plain: "sep \<notin> set a \<Longrightarrow> split_on sep a = [a]"
  by (induction a) auto

lemma split_on_append: "sep \<notin> set a \<Longrightarrow> split_on sep (a @ sep # b) = a # split_on sep b"
  by (induction a) auto

lemma dec_digits_no_colon: "58 \<notin> set (dec_digits n)"
  using dec_digits_chars [of 58 n] by auto



lemma scan_digits_numeric:
  "scan_digits p cs acc = Some (v, rest) \<Longrightarrow> list_all py_isspace rest \<Longrightarrow> list_all numeric_char cs"
proof (induction cs arbitrary: p acc)
  case Nil
  then show ?case by simp
next
  case (Cons c cs)
  show ?case
  proof (cases "48 \<le> c \<and> c \<le> 57")
    case True
    with Cons show ?thesis by (auto simp: numeric_char_def)
  next
    case False
    show ?thesis
    proof (cases "c = 95")
      case True
      with False Cons show ?thesis by (auto simp: numeric_char_def split: if_splits)
    next
      case nu: False
      with False Cons.prems have "rest = c # cs" by (auto split: if_splits)
      with Cons.prems(2) show ?thesis by (auto simp: numeric_char_def list_all_iff)
    qed
  qed
qed

lemma py_int_numeric:
  assumes "py_int s = Some v"
  shows "list_all numeric_char (map to_ascii s)"
proof -
  define a where "a = map to_ascii s"
  define b where "b = dropWhile py_isspace a"
  define c where "c = (case b of [] \<Rightarrow> b | x # r \<Rightarrow> if x = 43 \<or> x = 45 then r else b)"
  from assms obtain n rest where sc: "scan_digits False c 0 = Some (n, rest)"
    and sp: "list_all py_isspace rest"
    unfolding py_int_def a_def [symmetric] b_def [symmetric] c_def
    by (auto simp: Let_def split: list.splits if_splits option.splits)
  from sc sp have nc: "list_all numeric_char c" by (rule scan_digits_numeric)
  have nb: "list_all numeric_char b"
    using nc unfolding c_def by (auto simp: numeric_char_def split: list.splits if_splits)
  have "a = takeWhile py_isspace a @ b" by (simp add: b_def)
  moreover have "list_all numeric_char (takeWhile py_isspace a)"
    by (auto simp: list_all_iff numeric_char_def dest: set_takeWhileD)
  ultimately have "list_all numeric_char a"
    using nb by (metis list_all_append)
  then show ?thesis by (simp add: a_def)
qed

lemma split_on_covers:
  "c \<in> set s \<Longrightarrow> c \<noteq> sep \<Longrightarrow> \<exists>p \<in> set (split_on sep s). c \<in> set p"
proof (induction s)
  case Nil
  then show ?case by simp
next
  case (Cons a s)
  obtain p ps where sp: "split_on sep s = p # ps"
    using split_on_nonempty [of sep s] by (cases "split_on sep s") auto
  show ?case
  proof (cases "c = a")
    case True
    with Cons.prems sp show ?thesis by simp
  next
    case False
    with Cons.prems have "c \<in> set s" by simp
    from Cons.IH [OF this Cons.prems(2)] obtain q where "q \<in> set (p # ps)" "c \<in> set q"
      using sp by auto
    then show ?thesis
      using sp by (cases "a = sep") auto
  qed
qed

lemma parse_duration_cases:
  "parse_duration str =
     (case map py_int (split_on 58 str) of
        [Some s] \<Rightarrow> Inr s
      | [Some m, Some s] \<Rightarrow> Inr (m * 60 + s)
      | [Some h, Some m, Some s] \<Rightarrow> Inr (h * 3600 + m * 60 + s)
      | _ \<Rightarrow> Inl (ValueError DURATION_MSG))"
  by (auto simp: parse_duration_def parse_duration_try_def split: list.splits option.splits)


lemma parse_duration_try_None:
  "p \<in> set parts \<Longrightarrow> py_int p = None \<Longrightarrow> parse_duration_try parts = None"
  by (auto simp: parse_duration_try_def split: list.splits option.splits)

lemma parse_duration_error: "parse_duration str = Inl e \<Longrightarrow> e = ValueError DURATION_MSG"
  by (auto simp: parse_duration_def split: option.splits)

lemma parse_duration_non_numeric:
  assumes "c \<in> set str" and "c \<noteq> 58" and "\<not> numeric_char (to_ascii c)"
  shows "parse_duration str = Inl (ValueError DURATION_MSG)"
proof -
  from split_on_covers [OF assms(1,2)] obtain p
    where p: "p \<in> set (split_on 58 str)" and c: "c \<in> set p" by blast
  have "py_int p = None"
  proof (cases "py_int p")
    case (Some v)
    then have "list_all numeric_char (map to_ascii p)" by (rule py_int_numeric)
    with c assms(3) show ?thesis by (auto simp: list_all_iff)
  qed simp
  with p have "parse_duration_try (split_on 58 str) = None"
    by (rule parse_duration_try_None)
  then show ?thesis by (simp add: parse_duration_def)
qed

lemma parse_duration_seconds: "parse_duration (dec_digits S) = Inr (int S)"
  by (simp add: parse_duration_def parse_duration_try_def split_on_plain dec_digits_no_colon
      py_int_dec)

lemma parse_duration_minutes:
  "parse_duration (dec_digits M @ [58] @ dec_digits S) = Inr (int M * 60 + int S)"
  by (simp add: parse_duration_def parse_duration_try_def split_on_plain split_on_append
      dec_digits_no_colon py_int_dec)

lemma parse_duration_hours:
  "parse_duration (dec_digits H @ [58] @ dec_digits M @ [58] @ dec_digits S)
     = Inr (int H * 3600 + int M * 60 + int S)"
  by (simp add: parse_duration_def parse_duration_try_def split_on_plain split_on_append
      dec_digits_no_colon py_int_dec)

lemma parse_duration_too_many:
  "3 < length (split_on 58 str) \<Longrightarrow> parse_duration str = Inl (ValueError DURATION_MSG)"
  by (auto simp: parse_duration_def parse_duration_try_def split: list.splits)

text \<open>
  Claim C6. \<open>parse_duration\<close> succeeds exactly when the string splits on the colon
  into one, two or three parts that \<open>int\<close> accepts, and then returns S, M*60+S or
  H*3600+M*60+S; the decimal strings of any natural numbers S, M and H are read back
  to these values; more than three parts, a character that cannot occur in an
  integer, and the empty string give the \<open>ValueError\<close> of the parser, which is the
  only error it raises.
\<close>

theorem parse_duration_spec:
  "parse_duration str =
     (case map py_int (split_on 58 str) of
        [Some s] \<Rightarrow> Inr s
      | [Some m, Some s] \<Rightarrow> Inr (m * 60 + s)
      | [Some h, Some m, Some s] \<Rightarrow> Inr (h * 3600 + m * 60 + s)
      | _ \<Rightarrow> Inl (ValueError DURATION_MSG))
   \<and> parse_duration (dec_digits S) = Inr (int S)
   \<and> parse_duration (dec_digits M @ [58] @ dec_digits S) = Inr (int M * 60 + int S)
   \<and> parse_duration (dec_digits H @ [58] @ dec_digits M @ [58] @ dec_digits S)
       = Inr (int H * 3600 + int M * 60 + int S)
   \<and> (3 < length (split_on 58 str) \<longrightarrow> parse_duration str = Inl (ValueError DURATION_MSG))
   \<and> ((\<exists>c \<in> set str. c \<noteq> 58 \<and> \<not> numeric_char (to_ascii c))
        \<longrightarrow> parse_duration str = Inl (ValueError DURATION_MSG))
   \<and> parse_duration [] = Inl (ValueError DURATION_MSG)
   \<and> (\<forall>e. parse_duration str = Inl e \<longrightarrow> e = ValueError DURATION_MSG)"
proof -
  have empty: "parse_duration [] = Inl (ValueError DURATION_MSG)"
    by (simp add: parse_duration_def parse_duration_try_def py_int_def)
  show ?thesis
    using parse_duration_cases [of str] parse_duration_seconds [of S]
      parse_duration_minutes [of M S] parse_duration_hours [of H M S]
      parse_duration_too_many [of str] parse_duration_non_numeric [of _ str]
      parse_duration_error [of str] empty
    by blast
qed

lemma py_int_eval:
  "py_int [49] = Some 1" "py_int [51, 48] = Some 30" "py_int [48, 48] = Some 0"
  by (simp_all add: py_int_def to_ascii_def py_isspace_def)

theorem parse_duration_spec_witness:
  "parse_duration (ascii ''1:30:00'') = Inr 5400
   \<and> 3 < length (split_on 58 (ascii ''1:2:3:4''))
   \<and> parse_duration (ascii ''1:2:3:4'') = Inl (ValueError DURATION_MSG)
   \<and> (\<exists>c \<in> set (ascii ''abc''). c \<noteq> 58 \<and> \<not> numeric_char (to_ascii c))
   \<and> parse_duration (ascii ''abc'') = Inl (ValueError DURATION_MSG)"
proof -
  have a: "3 < length (split_on 58 (ascii ''1:2:3:4''))" by simp
  have b: "\<exists>c \<in> set (ascii ''abc''). c \<noteq> 58 \<and> \<not> numeric_char (to_ascii c)"
    by (simp add: numeric_char_def to_ascii_def py_isspace_def)
  have "parse_duration (ascii ''1:30:00'') =
     (case map py_int (split_on 58 (ascii ''1:30:00'')) of
        [Some s] \<Rightarrow> Inr s
      | [Some m, Some s] \<Rightarrow> Inr (m * 60 + s)
      | [Some h, Some m, Some s] \<Rightarrow> Inr (h * 3600 + m * 60 + s)
      | _ \<Rightarrow> Inl (ValueError DURATION_MSG))"
    using parse_duration_spec [of "ascii ''1:30:00''" 0 0 0] by blast
  then have c: "parse_duration (ascii ''1:30:00'') = Inr 5400"
    by (simp add: py_int_eval)
  have d: "parse_duration (ascii ''1:2:3:4'') = Inl (ValueError DURATION_MSG)"
    using a parse_duration_spec [of "ascii ''1:2:3:4''" 0 0 0] by blast
  have e: "parse_duration (ascii ''abc'') = Inl (ValueError DURATION_MSG)"
    using b parse_duration_spec [of "ascii ''abc''" 0 0 0] by blast
  from a b c d e show ?thesis by blast
qed


section \<open>Properties of the countdown\<close>


lemma progress_of_val: "progress_of T r = Inr (progress_val T r)"
  by (simp add: progress_of_def progress_val_def py_truediv_def)

lemma countdown_loop_done:
  "r < 0 \<Longrightarrow> countdown_loop T l c cfg r p f es = ([], Returns False, es)"
  by (cases es) simp_all

lemma countdown_loop_Tick:
  "0 \<le> r \<Longrightarrow>
   countdown_loop T l c cfg r p f (Tick k # es) =
     (case countdown_loop T l c cfg
             (if (if k = Some (ascii ''q'') then \<not> p else p) then r else r - 1)
             (if k = Some (ascii ''q'') then \<not> p else p) False es of
        (tr, out, rest) \<Rightarrow>
          ((if \<not> f then [Sleep 1, MoveUp (countdown_lines_to_move cfg)] else [])
           @ [Draw (CountdownFrame r (if k = Some (ascii ''q'') then \<not> p else p) l c
                 (progress_val T r))] @ tr,
           out, rest))"
  by (simp add: progress_of_val Let_def)

lemma countdown_loop_CtrlC:
  "0 \<le> r \<Longrightarrow> countdown_loop T l c cfg r p f (CtrlC # es) = ([Print []], Returns True, es)"
  by simp

lemma countdown_loop_Nil:
  "0 \<le> r \<Longrightarrow> countdown_loop T l c cfg r p f [] = ([], Pending, [])"
  by simp

lemma no_pause_complete:
  assumes "0 < T"
  shows "0 \<le> r \<Longrightarrow> list_all running_tick es \<Longrightarrow> length es = nat r + 1 \<Longrightarrow>
    countdown_loop T l c cfg r False f (es @ rest)
      = (loop_trace T l c cfg f (count_down r (nat r + 1)), Returns False, rest)"
proof (induction es arbitrary: r f)
  case Nil
  then show ?case by simp
next
  case (Cons e es)
  from Cons.prems(2) obtain k where e: "e = Tick k" and k: "k \<noteq> Some (ascii ''q'')"
    by (cases e) (auto simp: running_tick_def)
  have pv: "progress_val T r = of_int (T - r) / of_int T"
    using assms by (simp add: progress_val_def)
  show ?case
  proof (cases "r = 0")
    case True
    with Cons.prems have "es = []" by simp
    with True e k pv show ?thesis
      by (simp add: countdown_loop_Tick countdown_loop_done del: countdown_loop.simps)
  next
    case False
    with Cons.prems have r1: "0 \<le> r - 1" and len: "length es = nat (r - 1) + 1"
      and all: "list_all running_tick es" by auto
    define rs where "rs = count_down (r - 1) (nat (r - 1) + 1)"
    from False Cons.prems(1) have "nat r + 1 = Suc (nat (r - 1) + 1)" by simp
    then have cd: "count_down r (nat r + 1) = r # rs"
      by (simp only: count_down.simps rs_def)
    have ih: "countdown_loop T l c cfg (r - 1) False False (es @ rest)
               = (loop_trace T l c cfg False rs, Returns False, rest)"
      unfolding rs_def by (rule Cons.IH [OF r1 all len])
    show ?thesis
      unfolding cd using e k pv Cons.prems(1) ih
      by (simp add: countdown_loop_Tick del: countdown_loop.simps)
  qed
qed

lemma no_pause_pending:
  assumes "0 < T"
  shows "0 \<le> r \<Longrightarrow> list_all running_tick es \<Longrightarrow> length es \<le> nat r \<Longrightarrow>
    countdown_loop T l c cfg r False f es
      = (loop_trace T l c cfg f (count_down r (length es)), Pending, [])"
proof (induction es arbitrary: r f)
  case Nil
  then show ?case by simp
next
  case (Cons e es)
  from Cons.prems(2) obtain k where e: "e = Tick k" and k: "k \<noteq> Some (ascii ''q'')"
    by (cases e) (auto simp: running_tick_def)
  have pv: "progress_val T r = of_int (T - r) / of_int T"
    using assms by (simp add: progress_val_def)
  from Cons.prems have r1: "0 \<le> r - 1" and len: "length es \<le> nat (r - 1)"
    and all: "list_all running_tick es" by auto
  define rs where "rs = count_down (r - 1) (length es)"
  have cd: "count_down r (length (e # es)) = r # rs"
    by (simp add: rs_def)
  have ih: "countdown_loop T l c cfg (r - 1) False False es
             = (loop_trace T l c cfg False rs, Pending, [])"
    unfolding rs_def by (rule Cons.IH [OF r1 all len])
  show ?case
    unfolding cd using e k pv Cons.prems(1) ih
    by (simp add: countdown_loop_Tick del: countdown_loop.simps)
qed

lemma frames_loop_trace:
  "countdown_frames (loop_trace T l c cfg f rs) = map (\<lambda>r. (r, False, of_int (T - r) / of_int T)) rs"
  by (induction rs arbitrary: f) simp_all

lemma count_down_map: "count_down r k = map (\<lambda>i. r - int i) [0..<k]"
proof (induction k arbitrary: r)
  case 0
  show ?case by simp
next
  case (Suc k)
  have "[0..<Suc k] = 0 # map Suc [0..<k]"
    by (simp add: upt_conv_Cons map_Suc_upt del: upt_Suc)
  then show ?case
    using Suc [of "r - 1"] by (simp add: o_def del: upt_Suc)
qed



lemma running_replicate: "list_all running_tick (replicate n (Tick None))"
  by (simp add: list_all_iff running_tick_def)

text \<open>
  Claim C3. A countdown of \<open>T \<ge> 1\<close> seconds that is neither paused nor interrupted
  draws the values T, T-1, ..., 0, one per iteration, with a sleep of one second before
  every frame but the first; it returns after the frame of 0, that is after T+1
  iterations, and is still running after any smaller number; the frame of the value
  \<open>r\<close> carries the progress (T - r) / T. For T = 5 the values are 5, 4, 3, 2, 1, 0 and
  the progress is 0, 1/5, 2/5, 3/5, 4/5, 1.
\<close>

theorem countdown_sequence:
  assumes "1 \<le> T" and "list_all running_tick es"
  shows "(length es = nat T + 1 \<longrightarrow>
            countdown_timer T l c cfg (es @ rest)
              = (loop_trace T l c cfg True (count_down T (nat T + 1)), Returns False, rest))
       \<and> (length es \<le> nat T \<longrightarrow>
            countdown_timer T l c cfg es
              = (loop_trace T l c cfg True (count_down T (length es)), Pending, []))
       \<and> countdown_frames (loop_trace T l c cfg True (count_down T n))
            = map (\<lambda>r. (r, False, of_int (T - r) / of_int T)) (count_down T n)
       \<and> count_down T (nat T + 1) = map (\<lambda>i. T - int i) [0..<nat T + 1]
       \<and> countdown_frames (fst (countdown_timer 5 l c cfg (replicate 6 (Tick None))))
            = [(5, False, 0), (4, False, 1 / 5), (3, False, 2 / 5), (2, False, 3 / 5),
               (1, False, 4 / 5), (0, False, 1)]
       \<and> fst (snd (countdown_timer 5 l c cfg (replicate 6 (Tick None)))) = Returns False
       \<and> fst (snd (countdown_timer 5 l c cfg (replicate 5 (Tick None)))) = Pending"
proof -
  from assms have T: "0 < T" "0 \<le> T" by simp_all
  have a: "countdown_timer T l c cfg (es @ rest)
              = (loop_trace T l c cfg True (count_down T (nat T + 1)), Returns False, rest)"
    if "length es = nat T + 1"
    unfolding countdown_timer_def using T(1) T(2) assms(2) that by (rule no_pause_complete)
  have b: "countdown_timer T l c cfg es
              = (loop_trace T l c cfg True (count_down T (length es)), Pending, [])"
    if "length es \<le> nat T"
    unfolding countdown_timer_def using T(1) T(2) assms(2) that by (rule no_pause_pending)
  have six: "countdown_timer 5 l c cfg (replicate 6 (Tick None) @ [])
      = (loop_trace 5 l c cfg True (count_down 5 (nat 5 + 1)), Returns False, [])"
    unfolding countdown_timer_def
    by (rule no_pause_complete) (simp_all add: running_replicate)
  have five: "countdown_timer 5 l c cfg (replicate 5 (Tick None))
      = (loop_trace 5 l c cfg True (count_down 5 (length (replicate 5 (Tick None :: event)))), Pending, [])"
    unfolding countdown_timer_def
    by (rule no_pause_pending) (simp_all add: running_replicate)
  have "count_down 5 (Suc (Suc (Suc (Suc (Suc (Suc 0)))))) = [5, 4, 3, 2, 1, 0]"
    by simp
  then have cd: "count_down 5 6 = [5, 4, 3, 2, 1, 0]"
    by (simp add: numeral_eq_Suc)
  have d: "countdown_frames (fst (countdown_timer 5 l c cfg (replicate 6 (Tick None))))
            = [(5, False, 0), (4, False, 1 / 5), (3, False, 2 / 5), (2, False, 3 / 5),
               (1, False, 4 / 5), (0, False, 1)]"
    using six by (simp add: frames_loop_trace cd del: replicate.simps)
  have e: "fst (snd (countdown_timer 5 l c cfg (replicate 6 (Tick None)))) = Returns False"
    using six by simp
  have f: "fst (snd (countdown_timer 5 l c cfg (replicate 5 (Tick None)))) = Pending"
    using five by simp
  from a b d e f show ?thesis
    by (simp add: frames_loop_trace count_down_map del: upt_Suc)
qed


theorem countdown_sequence_witness:
  "(1::int) \<le> 2
   \<and> list_all running_tick [Tick None, Tick (Some (ascii ''x'')), Tick None]
   \<and> countdown_timer 2 (ascii ''Countdown Timer'') YELLOW default_config
         ([Tick None, Tick (Some (ascii ''x'')), Tick None] @ [CtrlC])
       = (loop_trace 2 (ascii ''Countdown Timer'') YELLOW default_config True [2, 1, 0],
          Returns False, [CtrlC])"
proof -
  have a: "list_all running_tick [Tick None, Tick (Some (ascii ''x'')), Tick None]"
    by (simp add: running_tick_def)
  have b: "count_down 2 (Suc (Suc (Suc 0))) = [2, 1, 0]" by simp
  have c: "nat 2 + 1 = Suc (Suc (Suc 0))" by simp
  from a show ?thesis
    using countdown_sequence [of 2 "[Tick None, Tick (Some (ascii ''x'')), Tick None]"
        "ascii ''Countdown Timer''" YELLOW default_config "[CtrlC]" 0]
    by (simp only: b c) simp
qed

lemma countdown_frames_tick:
  "countdown_frames ((if \<not> f then [Sleep 1, MoveUp n] else []) @ [Draw (CountdownFrame r p l c pr)] @ tr)
     = (r, p, pr) # countdown_frames tr"
  by simp

lemma frames_follow_loop:
  "frames_follow r (countdown_frames (fst (countdown_loop T l c cfg r p f es)))"
proof (induction es arbitrary: r p f)
  case Nil
  show ?case by simp
next
  case (Cons e es)
  show ?case
  proof (cases "0 \<le> r")
    case False
    then show ?thesis by (simp add: countdown_loop_done)
  next
    case True
    show ?thesis
    proof (cases e)
      case CtrlC
      with True show ?thesis by simp
    next
      case (Tick k)
      define p' where "p' = (if k = Some (ascii ''q'') then \<not> p else p)"
      define r' where "r' = (if p' then r else r - 1)"
      obtain tr out rest where rec: "countdown_loop T l c cfg r' p' False es = (tr, out, rest)"
        using prod_cases3 by blast
      have "frames_follow r' (countdown_frames (fst (countdown_loop T l c cfg r' p' False es)))"
        by (rule Cons.IH)
      with rec have "frames_follow r' (countdown_frames tr)" by simp
      moreover have "countdown_frames (fst (countdown_loop T l c cfg r p f (e # es)))
          = (r, p', progress_val T r) # countdown_frames tr"
        unfolding Tick countdown_loop_Tick [OF True] p'_def [symmetric] r'_def [symmetric] rec
        by (simp only: prod.case fst_conv countdown_frames_tick)
      ultimately show ?thesis
        using True by (simp add: r'_def)
    qed
  qed
qed


lemma frames_follow_bound:
  "frames_follow r fs \<Longrightarrow> list_all (\<lambda>(r', p, pr). 0 \<le> r' \<and> r' \<le> r) fs"
proof (induction fs arbitrary: r)
  case Nil
  show ?case by simp
next
  case (Cons x fs)
  obtain r' p pr where x: "x = (r', p, pr)" by (cases x) auto
  from Cons.prems x have r: "r' = r" "0 \<le> r'"
    and ff: "frames_follow (if p then r' else r' - 1) fs" by simp_all
  from Cons.IH [OF ff] have "list_all (\<lambda>(a, b, d). 0 \<le> a \<and> a \<le> (if p then r' else r' - 1)) fs" .
  then have "list_all (\<lambda>(a, b, d). 0 \<le> a \<and> a \<le> r) fs"
    using r by (auto simp: list_all_iff split: if_splits)
  with r x show ?case by simp
qed

lemma countdown_loop_step:
  assumes "0 \<le> r"
  obtains tr out rest where
    "countdown_loop T l c cfg (if (if k = Some (ascii ''q'') then \<not> p else p) then r else r - 1)
        (if k = Some (ascii ''q'') then \<not> p else p) False es = (tr, out, rest)"
    "countdown_loop T l c cfg r p f (Tick k # es)
       = ((if \<not> f then [Sleep 1, MoveUp (countdown_lines_to_move cfg)] else [])
            @ [Draw (CountdownFrame r (if k = Some (ascii ''q'') then \<not> p else p) l c
                 (progress_val T r))] @ tr, out, rest)"
proof -
  obtain tr out rest where rec:
    "countdown_loop T l c cfg (if (if k = Some (ascii ''q'') then \<not> p else p) then r else r - 1)
        (if k = Some (ascii ''q'') then \<not> p else p) False es = (tr, out, rest)"
    using prod_cases3 by blast
  moreover have "countdown_loop T l c cfg r p f (Tick k # es)
       = ((if \<not> f then [Sleep 1, MoveUp (countdown_lines_to_move cfg)] else [])
            @ [Draw (CountdownFrame r (if k = Some (ascii ''q'') then \<not> p else p) l c
                 (progress_val T r))] @ tr, out, rest)"
    unfolding countdown_loop_Tick [OF assms] rec by simp
  ultimately show ?thesis by (rule that)
qed

lemma countdown_done_last:
  "0 \<le> r \<Longrightarrow> fst (snd (countdown_loop T l c cfg r p f es)) = Returns False \<Longrightarrow>
   countdown_frames (fst (countdown_loop T l c cfg r p f es)) \<noteq> []
   \<and> fst (last (countdown_frames (fst (countdown_loop T l c cfg r p f es)))) = 0
   \<and> \<not> fst (snd (last (countdown_frames (fst (countdown_loop T l c cfg r p f es)))))"
proof (induction es arbitrary: r p f)
  case Nil
  then show ?case by simp
next
  case (Cons e es)
  show ?case
  proof (cases e)
    case CtrlC
    with Cons.prems show ?thesis by simp
  next
    case (Tick k)
    define p' where "p' = (if k = Some (ascii ''q'') then \<not> p else p)"
    define r' where "r' = (if p' then r else r - 1)"
    from countdown_loop_step [OF Cons.prems(1), of T l c cfg k p es f]
    obtain tr out rest where rec: "countdown_loop T l c cfg r' p' False es = (tr, out, rest)"
      and step: "countdown_loop T l c cfg r p f (Tick k # es)
         = ((if \<not> f then [Sleep 1, MoveUp (countdown_lines_to_move cfg)] else [])
            @ [Draw (CountdownFrame r p' l c (progress_val T r))] @ tr, out, rest)"
      unfolding p'_def r'_def by blast
    have fr: "countdown_frames (fst (countdown_loop T l c cfg r p f (e # es)))
          = (r, p', progress_val T r) # countdown_frames tr"
      unfolding Tick step by (simp only: fst_conv countdown_frames_tick)
    from Cons.prems(2) have out: "out = Returns False"
      unfolding Tick step by simp
    show ?thesis
    proof (cases "0 \<le> r'")
      case True
      from Cons.IH [OF True, of p' False] rec out
      have "countdown_frames tr \<noteq> [] \<and> fst (last (countdown_frames tr)) = 0
            \<and> \<not> fst (snd (last (countdown_frames tr)))" by simp
      then show ?thesis unfolding fr by simp
    next
      case False
      with Cons.prems(1) have "r = 0" "\<not> p'"
        by (auto simp: r'_def split: if_splits)
      moreover from False rec have "tr = []"
        by (simp add: countdown_loop_done)
      ultimately show ?thesis unfolding fr by simp
    qed
  qed
qed

lemma countdown_never_raises:
  "fst (snd (countdown_loop T l c cfg r p f es)) \<noteq> Raises err"
proof (induction es arbitrary: r p f)
  case Nil
  show ?case by simp
next
  case (Cons e es)
  show ?case
  proof (cases "0 \<le> r")
    case False
    then show ?thesis by (simp add: countdown_loop_done)
  next
    case True
    show ?thesis
    proof (cases e)
      case CtrlC
      with True show ?thesis by simp
    next
      case (Tick k)
      from countdown_loop_step [OF True, of T l c cfg k p es f]
      obtain tr out rest where
        rec: "countdown_loop T l c cfg (if (if k = Some (ascii ''q'') then \<not> p else p) then r else r - 1)
                (if k = Some (ascii ''q'') then \<not> p else p) False es = (tr, out, rest)"
        and step: "countdown_loop T l c cfg r p f (Tick k # es)
         = ((if \<not> f then [Sleep 1, MoveUp (countdown_lines_to_move cfg)] else [])
            @ [Draw (CountdownFrame r (if k = Some (ascii ''q'') then \<not> p else p) l c
                 (progress_val T r))] @ tr, out, rest)"
        by blast
      from Cons.IH [of "if (if k = Some (ascii ''q'') then \<not> p else p) then r else r - 1"
          "if k = Some (ascii ''q'') then \<not> p else p" False] rec
      have "out \<noteq> Raises err" by simp
      then show ?thesis unfolding Tick step by simp
    qed
  qed
qed

lemma countdown_frames_progress:
  "list_all (\<lambda>(r', p', pr). pr = progress_val T r')
     (countdown_frames (fst (countdown_loop T l c cfg r p f es)))"
proof (induction es arbitrary: r p f)
  case Nil
  show ?case by simp
next
  case (Cons e es)
  show ?case
  proof (cases "0 \<le> r")
    case False
    then show ?thesis by (simp add: countdown_loop_done)
  next
    case True
    show ?thesis
    proof (cases e)
      case CtrlC
      with True show ?thesis by simp
    next
      case (Tick k)
      from countdown_loop_step [OF True, of T l c cfg k p es f]
      obtain tr out rest where
        rec: "countdown_loop T l c cfg (if (if k = Some (ascii ''q'') then \<not> p else p) then r else r - 1)
                (if k = Some (ascii ''q'') then \<not> p else p) False es = (tr, out, rest)"
        and step: "countdown_loop T l c cfg r p f (Tick k # es)
         = ((if \<not> f then [Sleep 1, MoveUp (countdown_lines_to_move cfg)] else [])
            @ [Draw (CountdownFrame r (if k = Some (ascii ''q'') then \<not> p else p) l c
                 (progress_val T r))] @ tr, out, rest)"
        by blast
      from Cons.IH [of "if (if k = Some (ascii ''q'') then \<not> p else p) then r else r - 1"
          "if k = Some (ascii ''q'') then \<not> p else p" False] rec
      have "list_all (\<lambda>(r', p', pr). pr = progress_val T r') (countdown_frames tr)" by simp
      then show ?thesis unfolding Tick step
        by (simp only: fst_conv countdown_frames_tick) simp
    qed
  qed
qed


text \<open>
  Claim C10. In every run of the countdown, whatever keys and interrupts arrive, the
  frames follow from \<open>total_seconds\<close>: each frame shows a value between 0 and
  \<open>total_seconds\<close>, the next frame shows one less when the frame is not paused and the
  same value when it is paused, and the loop returns only after a frame that shows 0
  and is not paused (with a negative \<open>total_seconds\<close> it returns at once and draws
  nothing).
\<close>

theorem countdown_invariant:
  "frames_follow T (countdown_frames (fst (countdown_timer T l c cfg es)))
   \<and> list_all (\<lambda>(r, p, pr). 0 \<le> r \<and> r \<le> T)
        (countdown_frames (fst (countdown_timer T l c cfg es)))
   \<and> (0 \<le> T \<and> fst (snd (countdown_timer T l c cfg es)) = Returns False \<longrightarrow>
        countdown_frames (fst (countdown_timer T l c cfg es)) \<noteq> []
        \<and> fst (last (countdown_frames (fst (countdown_timer T l c cfg es)))) = 0
        \<and> \<not> fst (snd (last (countdown_frames (fst (countdown_timer T l c cfg es))))))
   \<and> (T < 0 \<longrightarrow> countdown_timer T l c cfg es = ([], Returns False, es))"
proof -
  have a: "frames_follow T (countdown_frames (fst (countdown_timer T l c cfg es)))"
    unfolding countdown_timer_def by (rule frames_follow_loop)
  from a have b: "list_all (\<lambda>(r, p, pr). 0 \<le> r \<and> r \<le> T)
        (countdown_frames (fst (countdown_timer T l c cfg es)))"
    by (rule frames_follow_bound)
  have c: "countdown_frames (fst (countdown_timer T l c cfg es)) \<noteq> []
        \<and> fst (last (countdown_frames (fst (countdown_timer T l c cfg es)))) = 0
        \<and> \<not> fst (snd (last (countdown_frames (fst (countdown_timer T l c cfg es)))))"
    if "0 \<le> T" "fst (snd (countdown_timer T l c cfg es)) = Returns False"
    using that unfolding countdown_timer_def by (rule countdown_done_last)
  have d: "countdown_timer T l c cfg es = ([], Returns False, es)" if "T < 0"
    using that unfolding countdown_timer_def by (rule countdown_loop_done)
  from a b c d show ?thesis by blast
qed

theorem countdown_invariant_witness:
  "(0::int) \<le> 1
   \<and> fst (snd (countdown_timer 1 (ascii ''Countdown Timer'') YELLOW default_config
         [Tick None, Tick (Some (ascii ''q'')), Tick None, Tick (Some (ascii ''q'')), Tick None]))
       = Returns False
   \<and> map (\<lambda>(r, p, pr). (r, p))
        (countdown_frames (fst (countdown_timer 1 (ascii ''Countdown Timer'') YELLOW default_config
         [Tick None, Tick (Some (ascii ''q'')), Tick None, Tick (Some (ascii ''q'')), Tick None])))
       = [(1, False), (0, True), (0, True), (0, False)]
   \<and> frames_follow 1
        (countdown_frames (fst (countdown_timer 1 (ascii ''Countdown Timer'') YELLOW default_config
         [Tick None, Tick (Some (ascii ''q'')), Tick None, Tick (Some (ascii ''q'')), Tick None])))"
proof -
  have ev: "countdown_timer 1 (ascii ''Countdown Timer'') YELLOW default_config
         [Tick None, Tick (Some (ascii ''q'')), Tick None, Tick (Some (ascii ''q'')), Tick None]
     = ([Draw (CountdownFrame 1 False (ascii ''Countdown Timer'') YELLOW 0),
         Sleep 1, MoveUp (countdown_lines_to_move default_config),
         Draw (CountdownFrame 0 True (ascii ''Countdown Timer'') YELLOW 1),
         Sleep 1, MoveUp (countdown_lines_to_move default_config),
         Draw (CountdownFrame 0 True (ascii ''Countdown Timer'') YELLOW 1),
         Sleep 1, MoveUp (countdown_lines_to_move default_config),
         Draw (CountdownFrame 0 False (ascii ''Countdown Timer'') YELLOW 1)],
        Returns False, [Tick None])"
    by (simp add: countdown_timer_def progress_of_def py_truediv_def)
  show ?thesis
    using countdown_invariant [of 1 "ascii ''Countdown Timer''" YELLOW default_config
        "[Tick None, Tick (Some (ascii ''q'')), Tick None, Tick (Some (ascii ''q'')), Tick None]"]
    unfolding ev by simp
qed

text \<open>
  Claim C8. With \<open>total_seconds = 0\<close> the progress is 1 and no division takes place: the
  progress expression never raises, for any total, although the division itself raises
  exactly on a zero divisor; a countdown of 0 seconds whose first poll finds no pause
  key draws one frame, of the value 0 with progress 1, and returns; no run of the
  countdown ends in an exception, and every frame carries (total - remaining) / total
  when the total is positive and 1 otherwise.
\<close>

theorem countdown_zero_total:
  "progress_of 0 r = Inr 1
   \<and> progress_of T r = Inr (if 0 < T then of_int (T - r) / of_int T else 1)
   \<and> (py_truediv a b = Inl ZeroDivisionError) = (b = 0)
   \<and> (key \<noteq> Some (ascii ''q'') \<longrightarrow>
        countdown_timer 0 l c cfg (Tick key # es)
          = ([Draw (CountdownFrame 0 False l c 1)], Returns False, es))
   \<and> fst (snd (countdown_timer T l c cfg es)) \<noteq> Raises err
   \<and> list_all (\<lambda>(r, p, pr). pr = (if 0 < T then of_int (T - r) / of_int T else 1))
        (countdown_frames (fst (countdown_timer T l c cfg es)))"
proof -
  have a: "progress_of T r = Inr (if 0 < T then of_int (T - r) / of_int T else 1)" for T r
    by (simp add: progress_of_val progress_val_def)
  have b: "(py_truediv a b = Inl ZeroDivisionError) = (b = 0)"
    by (simp add: py_truediv_def)
  have c: "countdown_timer 0 l c cfg (Tick key # es)
          = ([Draw (CountdownFrame 0 False l c 1)], Returns False, es)"
    if "key \<noteq> Some (ascii ''q'')"
    using that
    by (simp add: countdown_timer_def countdown_loop_Tick countdown_loop_done progress_val_def
        del: countdown_loop.simps)
  have d: "fst (snd (countdown_timer T l c cfg es)) \<noteq> Raises err"
    unfolding countdown_timer_def by (rule countdown_never_raises)
  have e: "list_all (\<lambda>(r, p, pr). pr = (if 0 < T then of_int (T - r) / of_int T else 1))
        (countdown_frames (fst (countdown_timer T l c cfg es)))"
    using countdown_frames_progress [of T l c cfg T False True es]
    by (simp add: countdown_timer_def progress_val_def)
  from a [of 0 r] a [of T r] b c d e show ?thesis by simp
qed

theorem countdown_zero_total_witness:
  "None \<noteq> Some (ascii ''q'')
   \<and> countdown_timer 0 (ascii ''Countdown Timer'') YELLOW default_config (Tick None # [CtrlC])
       = ([Draw (CountdownFrame 0 False (ascii ''Countdown Timer'') YELLOW 1)], Returns False, [CtrlC])"
  using countdown_zero_total [of 0 0 0 0 None "ascii ''Countdown Timer''" YELLOW default_config
      "[CtrlC]"]
  by simp


section \<open>Properties of the stopwatch\<close>


lemma stopwatch_paused_idle:
  "paused st \<Longrightarrow> list_all idle_tick es \<Longrightarrow>
   elapsed (stopwatch_run st es) = elapsed st \<and> paused (stopwatch_run st es)
   \<and> start_time (stopwatch_run st es) = start_time st
   \<and> pause_start (stopwatch_run st es) = pause_start st"
proof (induction es arbitrary: st)
  case Nil
  then show ?case by simp
next
  case (Cons e es)
  from Cons.prems(2) obtain k t1 t2 where e: "e = SwTick k t1 t2"
    and k: "k \<noteq> Some (ascii ''q'')" "k \<noteq> Some (ascii ''r'')"
    by (cases e) (auto simp: idle_tick_def)
  define st' where "st' = (stopwatch_tick k t1 t2 st)\<lparr>first_iteration := False\<rparr>"
  from k Cons.prems(1) have st': "paused st'" "elapsed st' = elapsed st"
    "start_time st' = start_time st" "pause_start st' = pause_start st"
    by (simp_all add: st'_def stopwatch_tick_def stopwatch_key_def stopwatch_elapsed_def)
  from Cons.prems(2) have "list_all idle_tick es" by simp
  from Cons.IH [OF st'(1) this] st' show ?case
    by (simp add: e st'_def)
qed

lemma stopwatch_run_append:
  "list_all (\<lambda>e. e \<noteq> SwCtrlC) es \<Longrightarrow>
   stopwatch_run st (es @ es') = stopwatch_run (stopwatch_run st es) es'"
proof (induction es arbitrary: st)
  case Nil
  show ?case by simp
next
  case (Cons e es)
  then show ?case by (cases e) simp_all
qed

lemma idle_no_interrupt: "list_all idle_tick es \<Longrightarrow> list_all (\<lambda>e. e \<noteq> SwCtrlC) es"
  by (auto simp: list_all_iff idle_tick_def)

lemma stopwatch_pause_then_resume:
  assumes "\<not> paused st" and "list_all idle_tick es"
  shows "start_time (stopwatch_run st (SwTick (Some (ascii ''q'')) tp tp2 # es
                       @ [SwTick (Some (ascii ''q'')) tr tr2])) = start_time st + (tr - tp)
       \<and> \<not> paused (stopwatch_run st (SwTick (Some (ascii ''q'')) tp tp2 # es
                       @ [SwTick (Some (ascii ''q'')) tr tr2]))
       \<and> elapsed (stopwatch_run st (SwTick (Some (ascii ''q'')) tp tp2 # es
                       @ [SwTick (Some (ascii ''q'')) tr tr2]))
           = py_trunc ((tr2 - start_time st) - (tr - tp))"
proof -
  define s1 where "s1 = (stopwatch_tick (Some (ascii ''q'')) tp tp2 st)\<lparr>first_iteration := False\<rparr>"
  from assms(1) have s1: "paused s1" "start_time s1 = start_time st" "pause_start s1 = tp"
    by (simp_all add: s1_def stopwatch_tick_def stopwatch_key_def stopwatch_elapsed_def)
  define s2 where "s2 = stopwatch_run s1 es"
  from stopwatch_paused_idle [OF s1(1) assms(2)] s1
  have s2: "paused s2" "start_time s2 = start_time st" "pause_start s2 = tp"
    by (simp_all add: s2_def)
  have run: "stopwatch_run st (SwTick (Some (ascii ''q'')) tp tp2 # es
                       @ [SwTick (Some (ascii ''q'')) tr tr2])
      = (stopwatch_tick (Some (ascii ''q'')) tr tr2 s2)\<lparr>first_iteration := False\<rparr>"
    using stopwatch_run_append [OF idle_no_interrupt [OF assms(2)], of s1]
    by (simp add: s1_def s2_def)
  from s2 show ?thesis
    unfolding run
    by (simp add: stopwatch_tick_def stopwatch_key_def stopwatch_elapsed_def algebra_simps)
qed

lemma stopwatch_last_frame:
  "es \<noteq> [] \<Longrightarrow> list_all (\<lambda>e. e \<noteq> SwCtrlC) es \<Longrightarrow>
   stopwatch_frames (fst (stopwatch_loop st es)) \<noteq> []
   \<and> last (stopwatch_frames (fst (stopwatch_loop st es)))
     = (elapsed (stopwatch_run st es), paused (stopwatch_run st es))"
proof (induction es arbitrary: st)
  case Nil
  then show ?case by simp
next
  case (Cons e es)
  from Cons.prems(2) obtain k t1 t2 where e: "e = SwTick k t1 t2"
    by (cases e) auto
  define st' where "st' = stopwatch_tick k t1 t2 st"
  obtain tr out where rec: "stopwatch_loop (st'\<lparr>first_iteration := False\<rparr>) es = (tr, out)"
    by (cases "stopwatch_loop (st'\<lparr>first_iteration := False\<rparr>) es") auto
  have fr: "stopwatch_frames (fst (stopwatch_loop st (e # es)))
      = (elapsed st', paused st') # stopwatch_frames tr"
    using rec by (simp add: e st'_def [symmetric] Let_def)
  show ?case
  proof (cases "es = []")
    case True
    with rec have "tr = []" by simp
    with True show ?thesis unfolding fr by (simp add: e st'_def)
  next
    case False
    from Cons.prems(2) have "list_all (\<lambda>e. e \<noteq> SwCtrlC) es" by simp
    from Cons.IH [OF False this, of "st'\<lparr>first_iteration := False\<rparr>"] rec
    have l: "last (stopwatch_frames tr)
        = (elapsed (stopwatch_run (st'\<lparr>first_iteration := False\<rparr>) es),
           paused (stopwatch_run (st'\<lparr>first_iteration := False\<rparr>) es))"
      and ne: "stopwatch_frames tr \<noteq> []"
      by simp_all
    then show ?thesis unfolding fr by (simp add: e st'_def)
  qed
qed


lemma py_trunc_floor: "0 \<le> x \<Longrightarrow> py_trunc x = \<lfloor>x\<rfloor>"
  by (simp add: py_trunc_def)

text \<open>
  Claim C4, as amended. In the stopwatch, the key \<open>q\<close> while running sets the paused
  flag and records the time of the pause without changing the elapsed value, and the
  value stays as it is through every iteration while paused, which is also what the
  frames show; \<open>q\<close> again moves the start time forward by the time spent paused, so that
  the elapsed value after the resume is the time since the start less the whole pause;
  the key \<open>r\<close> sets the start time to now, the elapsed value to 0 and clears the paused
  flag; while running, the elapsed value is now minus the start time truncated towards
  zero (\<open>int\<close> of a float), which is its floor whenever the clock reading is not
  before the start time. With the start at 0: 2 at time 2, pause, still 2 at time 5,
  resume, 3 at time 6.
\<close>

theorem stopwatch_pause_resume:
  "(\<not> paused st \<longrightarrow>
      stopwatch_tick (Some (ascii ''q'')) t1 t2 st = st\<lparr>paused := True, pause_start := t1\<rparr>)
   \<and> (paused st \<and> list_all idle_tick es \<longrightarrow>
        elapsed (stopwatch_run st es) = elapsed st \<and> paused (stopwatch_run st es)
        \<and> start_time (stopwatch_run st es) = start_time st)
   \<and> (es \<noteq> [] \<and> list_all (\<lambda>e. e \<noteq> SwCtrlC) es \<longrightarrow>
        last (stopwatch_frames (fst (stopwatch_loop st es)))
          = (elapsed (stopwatch_run st es), paused (stopwatch_run st es)))
   \<and> (paused st \<longrightarrow>
        stopwatch_tick (Some (ascii ''q'')) t1 t2 st
          = st\<lparr>paused := False, start_time := start_time st + (t1 - pause_start st),
                elapsed := py_trunc (t2 - (start_time st + (t1 - pause_start st)))\<rparr>)
   \<and> (\<not> paused st \<and> list_all idle_tick es \<longrightarrow>
        start_time (stopwatch_run st (SwTick (Some (ascii ''q'')) tp tp2 # es
                       @ [SwTick (Some (ascii ''q'')) tr tr2])) = start_time st + (tr - tp)
        \<and> \<not> paused (stopwatch_run st (SwTick (Some (ascii ''q'')) tp tp2 # es
                       @ [SwTick (Some (ascii ''q'')) tr tr2]))
        \<and> elapsed (stopwatch_run st (SwTick (Some (ascii ''q'')) tp tp2 # es
                       @ [SwTick (Some (ascii ''q'')) tr tr2]))
            = py_trunc ((tr2 - start_time st) - (tr - tp)))
   \<and> stopwatch_key (Some (ascii ''r'')) t1 st = st\<lparr>start_time := t1, elapsed := 0, paused := False\<rparr>
   \<and> (0 \<le> t2 - t1 \<and> t2 - t1 < 1 \<longrightarrow> elapsed (stopwatch_tick (Some (ascii ''r'')) t1 t2 st) = 0)
   \<and> (\<not> paused (stopwatch_tick key t1 t2 st) \<longrightarrow>
        elapsed (stopwatch_tick key t1 t2 st)
          = (if 0 \<le> t2 - start_time (stopwatch_tick key t1 t2 st)
             then \<lfloor>t2 - start_time (stopwatch_tick key t1 t2 st)\<rfloor>
             else \<lceil>t2 - start_time (stopwatch_tick key t1 t2 st)\<rceil>))
   \<and> (\<not> paused (stopwatch_tick key t1 t2 st) \<and> start_time (stopwatch_tick key t1 t2 st) \<le> t2 \<longrightarrow>
        elapsed (stopwatch_tick key t1 t2 st) = \<lfloor>t2 - start_time (stopwatch_tick key t1 t2 st)\<rfloor>)
   \<and> stopwatch_frames (fst (stopwatch_mode 0
          [SwTick None 2 2, SwTick (Some (ascii ''q'')) 2 2, SwTick None 5 5,
           SwTick (Some (ascii ''q'')) 5 5, SwTick None 6 6]))
        = [(2, False), (2, True), (2, True), (2, False), (3, False)]"
proof -
  have a: "stopwatch_tick (Some (ascii ''q'')) t1 t2 st = st\<lparr>paused := True, pause_start := t1\<rparr>"
    if "\<not> paused st"
    using that by (simp add: stopwatch_tick_def stopwatch_key_def stopwatch_elapsed_def)
  have b: "elapsed (stopwatch_run st es) = elapsed st \<and> paused (stopwatch_run st es)
        \<and> start_time (stopwatch_run st es) = start_time st"
    if "paused st" "list_all idle_tick es"
    using stopwatch_paused_idle [OF that] by simp
  have c: "last (stopwatch_frames (fst (stopwatch_loop st es)))
          = (elapsed (stopwatch_run st es), paused (stopwatch_run st es))"
    if "es \<noteq> []" "list_all (\<lambda>e. e \<noteq> SwCtrlC) es"
    using stopwatch_last_frame [OF that] by simp
  have d: "stopwatch_tick (Some (ascii ''q'')) t1 t2 st
          = st\<lparr>paused := False, start_time := start_time st + (t1 - pause_start st),
                elapsed := py_trunc (t2 - (start_time st + (t1 - pause_start st)))\<rparr>"
    if "paused st"
    using that by (simp add: stopwatch_tick_def stopwatch_key_def stopwatch_elapsed_def)
  note e = stopwatch_pause_then_resume [of st es tp tp2 tr tr2]
  have f: "stopwatch_key (Some (ascii ''r'')) t1 st
      = st\<lparr>start_time := t1, elapsed := 0, paused := False\<rparr>"
    by (simp add: stopwatch_key_def)
  have g: "elapsed (stopwatch_tick (Some (ascii ''r'')) t1 t2 st) = 0"
    if "0 \<le> t2 - t1" "t2 - t1 < 1"
  proof -
    have "elapsed (stopwatch_tick (Some (ascii ''r'')) t1 t2 st) = py_trunc (t2 - t1)"
      by (simp add: stopwatch_tick_def stopwatch_key_def stopwatch_elapsed_def)
    also have "\<dots> = \<lfloor>t2 - t1\<rfloor>" using that(1) by (rule py_trunc_floor)
    also have "\<dots> = 0" using that by (simp add: floor_eq_iff)
    finally show ?thesis .
  qed
  have tr: "elapsed (stopwatch_tick key t1 t2 st)
          = (if 0 \<le> t2 - start_time (stopwatch_tick key t1 t2 st)
             then \<lfloor>t2 - start_time (stopwatch_tick key t1 t2 st)\<rfloor>
             else \<lceil>t2 - start_time (stopwatch_tick key t1 t2 st)\<rceil>)"
    if np: "\<not> paused (stopwatch_tick key t1 t2 st)"
  proof -
    define s where "s = stopwatch_key key t1 st"
    from np have p: "\<not> paused s"
      by (auto simp: stopwatch_tick_def stopwatch_elapsed_def s_def split: if_splits)
    then have t: "stopwatch_tick key t1 t2 st = s\<lparr>elapsed := py_trunc (t2 - start_time s)\<rparr>"
      by (simp add: stopwatch_tick_def stopwatch_elapsed_def s_def)
    show ?thesis unfolding t by (simp add: py_trunc_def)
  qed
  have h: "elapsed (stopwatch_tick key t1 t2 st) = \<lfloor>t2 - start_time (stopwatch_tick key t1 t2 st)\<rfloor>"
    if np: "\<not> paused (stopwatch_tick key t1 t2 st)" and le: "start_time (stopwatch_tick key t1 t2 st) \<le> t2"
  proof -
    define s where "s = stopwatch_key key t1 st"
    from np have p: "\<not> paused s"
      by (auto simp: stopwatch_tick_def stopwatch_elapsed_def s_def split: if_splits)
    then have t: "stopwatch_tick key t1 t2 st = s\<lparr>elapsed := py_trunc (t2 - start_time s)\<rparr>"
      by (simp add: stopwatch_tick_def stopwatch_elapsed_def s_def)
    from le have "0 \<le> t2 - start_time s" unfolding t by simp
    then show ?thesis unfolding t by (simp add: py_trunc_floor)
  qed
  have i: "stopwatch_frames (fst (stopwatch_mode 0
          [SwTick None 2 2, SwTick (Some (ascii ''q'')) 2 2, SwTick None 5 5,
           SwTick (Some (ascii ''q'')) 5 5, SwTick None 6 6]))
        = [(2, False), (2, True), (2, True), (2, False), (3, False)]"
    by (simp add: stopwatch_mode_def stopwatch_init_def stopwatch_tick_def stopwatch_key_def
        stopwatch_elapsed_def py_trunc_def Let_def)
  from a b c d e f g tr h i show ?thesis by blast
qed

theorem stopwatch_pause_resume_witness:
  "\<not> paused (stopwatch_init 0)
   \<and> list_all idle_tick [SwTick None 3 3, SwTick (Some (ascii ''x'')) 4 4]
   \<and> elapsed (stopwatch_run ((stopwatch_tick None 2 2 (stopwatch_init 0))\<lparr>first_iteration := False\<rparr>)
        (SwTick (Some (ascii ''q'')) 2 2 # [SwTick None 3 3, SwTick (Some (ascii ''x'')) 4 4]
           @ [SwTick (Some (ascii ''q'')) 5 6])) = 3"
proof -
  have a: "\<not> paused ((stopwatch_tick None 2 2 (stopwatch_init 0))\<lparr>first_iteration := False\<rparr>)"
    by (simp add: stopwatch_init_def stopwatch_tick_def stopwatch_key_def stopwatch_elapsed_def)
  have b: "list_all idle_tick [SwTick None 3 3, SwTick (Some (ascii ''x'')) 4 4]"
    by (simp add: idle_tick_def)
  have c: "start_time ((stopwatch_tick None 2 2 (stopwatch_init 0))\<lparr>first_iteration := False\<rparr>) = 0"
    by (simp add: stopwatch_init_def stopwatch_tick_def stopwatch_key_def stopwatch_elapsed_def)
  have d: "py_trunc ((6 - 0) - (5 - 2)) = 3"
    by (simp add: py_trunc_def)
  from a b have "elapsed (stopwatch_run ((stopwatch_tick None 2 2 (stopwatch_init 0))\<lparr>first_iteration := False\<rparr>)
        (SwTick (Some (ascii ''q'')) 2 2 # [SwTick None 3 3, SwTick (Some (ascii ''x'')) 4 4]
           @ [SwTick (Some (ascii ''q'')) 5 6]))
      = py_trunc ((6 - start_time ((stopwatch_tick None 2 2 (stopwatch_init 0))\<lparr>first_iteration := False\<rparr>)) - (5 - 2))"
    using stopwatch_pause_resume [of "(stopwatch_tick None 2 2 (stopwatch_init 0))\<lparr>first_iteration := False\<rparr>"
        0 0 "[SwTick None 3 3, SwTick (Some (ascii ''x'')) 4 4]" 2 2 5 6 None]
    by blast
  with c d have "elapsed (stopwatch_run ((stopwatch_tick None 2 2 (stopwatch_init 0))\<lparr>first_iteration := False\<rparr>)
        (SwTick (Some (ascii ''q'')) 2 2 # [SwTick None 3 3, SwTick (Some (ascii ''x'')) 4 4]
           @ [SwTick (Some (ascii ''q'')) 5 6])) = 3"
    by (simp only:)
  moreover have "\<not> paused (stopwatch_init 0)" by (simp add: stopwatch_init_def)
  ultimately show ?thesis using b by blast
qed

text \<open>
  The claim as first stated, with the floor and no condition on the clock, fails when
  the wall clock steps back: started at 0 and read at -1/2, the running stopwatch shows
  0, and the floor is -1.
\<close>

theorem stopwatch_floor_counterexample:
  "\<not> paused (stopwatch_tick None 0 (- 1 / 2) (stopwatch_init 0))
   \<and> elapsed (stopwatch_tick None 0 (- 1 / 2) (stopwatch_init 0)) = 0
   \<and> \<lfloor>- 1 / 2 - start_time (stopwatch_tick None 0 (- 1 / 2) (stopwatch_init 0))\<rfloor> = - 1
   \<and> elapsed (stopwatch_tick None 0 (- 1 / 2) (stopwatch_init 0))
       \<noteq> \<lfloor>- 1 / 2 - start_time (stopwatch_tick None 0 (- 1 / 2) (stopwatch_init 0))\<rfloor>"
proof -
  have t: "stopwatch_tick None 0 (- 1 / 2) (stopwatch_init 0)
      = (stopwatch_init 0)\<lparr>elapsed := py_trunc (- 1 / 2)\<rparr>"
    by (simp add: stopwatch_tick_def stopwatch_key_def stopwatch_elapsed_def stopwatch_init_def)
  have c: "\<lceil>- (1 / 2) :: rat\<rceil> = 0" by (simp add: ceiling_eq_iff)
  have f: "\<lfloor>- (1 / 2) :: rat\<rfloor> = - 1" by (simp add: floor_eq_iff)
  have e: "py_trunc (- (1 / 2)) = 0" by (simp add: py_trunc_def c)
  show ?thesis unfolding t by (simp add: stopwatch_init_def e f)
qed

section \<open>Properties of the Pomodoro loop\<close>


lemma no_pause_interrupted:
  assumes "0 < T"
  shows "0 \<le> r \<Longrightarrow> list_all running_tick es \<Longrightarrow> length es \<le> nat r \<Longrightarrow>
    countdown_loop T l c cfg r False f (es @ CtrlC # rest)
      = (loop_trace T l c cfg f (count_down r (length es)) @ [Print []], Returns True, rest)"
proof (induction es arbitrary: r f)
  case Nil
  then show ?case by simp
next
  case (Cons e es)
  from Cons.prems(2) obtain k where e: "e = Tick k" and k: "k \<noteq> Some (ascii ''q'')"
    by (cases e) (auto simp: running_tick_def)
  have pv: "progress_val T r = of_int (T - r) / of_int T"
    using assms by (simp add: progress_val_def)
  from Cons.prems have r1: "0 \<le> r - 1" and len: "length es \<le> nat (r - 1)"
    and all: "list_all running_tick es" by auto
  define rs where "rs = count_down (r - 1) (length es)"
  have cd: "count_down r (length (e # es)) = r # rs"
    by (simp add: rs_def)
  have ih: "countdown_loop T l c cfg (r - 1) False False (es @ CtrlC # rest)
             = (loop_trace T l c cfg False rs @ [Print []], Returns True, rest)"
    unfolding rs_def by (rule Cons.IH [OF r1 all len])
  show ?case
    unfolding cd using e k pv Cons.prems(1) ih
    by (simp add: countdown_loop_Tick del: countdown_loop.simps)
qed

lemma frame_labels_tick:
  "frame_labels ((if \<not> f then [Sleep 1, MoveUp n] else []) @ [Draw (CountdownFrame r p l c pr)] @ tr)
     = l # frame_labels tr"
  by simp

lemma countdown_loop_labels:
  "list_all (\<lambda>x. x = l) (frame_labels (fst (countdown_loop T l c cfg r p f es)))"
proof (induction es arbitrary: r p f)
  case Nil
  show ?case by simp
next
  case (Cons e es)
  show ?case
  proof (cases "0 \<le> r")
    case False
    then show ?thesis by (simp add: countdown_loop_done)
  next
    case True
    show ?thesis
    proof (cases e)
      case CtrlC
      with True show ?thesis by simp
    next
      case (Tick k)
      from countdown_loop_step [OF True, of T l c cfg k p es f]
      obtain tr out rest where
        rec: "countdown_loop T l c cfg (if (if k = Some (ascii ''q'') then \<not> p else p) then r else r - 1)
                (if k = Some (ascii ''q'') then \<not> p else p) False es = (tr, out, rest)"
        and step: "countdown_loop T l c cfg r p f (Tick k # es)
         = ((if \<not> f then [Sleep 1, MoveUp (countdown_lines_to_move cfg)] else [])
            @ [Draw (CountdownFrame r (if k = Some (ascii ''q'') then \<not> p else p) l c
                 (progress_val T r))] @ tr, out, rest)"
        by blast
      from Cons.IH [of "if (if k = Some (ascii ''q'') then \<not> p else p) then r else r - 1"
          "if k = Some (ascii ''q'') then \<not> p else p" False] rec
      have "list_all (\<lambda>x. x = l) (frame_labels tr)" by simp
      then show ?thesis unfolding Tick step
        by (simp only: fst_conv frame_labels_tick) simp
    qed
  qed
qed

lemma pomodoro_work_interrupted:
  assumes "countdown_timer (w * 60) (session_label n (ascii ''Work'')) RED cfg es = (tr1, Returns True, es1)"
  shows "pomodoro_loop w b cfg n es = (ClearScreen # tr1, Returns ())"
  by (subst pomodoro_loop.simps) (simp only: pomodoro_pass_def assms prod.case outcome.case bool.case sleep_2.simps option.case sum.case)

lemma pomodoro_break_interrupted:
  assumes "countdown_timer (w * 60) (session_label n (ascii ''Work'')) RED cfg es
             = (tr1, Returns False, Tick k1 # es2)"
    and "countdown_timer (b * 60) (session_label n (ascii ''Break'')) GREEN cfg es2
             = (tr2, Returns True, es3)"
  shows "pomodoro_loop w b cfg n es
           = (ClearScreen # tr1 @ bell cfg @ [Sleep 2, ClearScreen] @ tr2, Returns ())"
  by (subst pomodoro_loop.simps) (simp only: pomodoro_pass_def assms prod.case outcome.case bool.case sleep_2.simps option.case sum.case)

lemma pomodoro_session_complete:
  assumes "countdown_timer (w * 60) (session_label n (ascii ''Work'')) RED cfg es
             = (tr1, Returns False, Tick k1 # es2)"
    and "countdown_timer (b * 60) (session_label n (ascii ''Break'')) GREEN cfg es2
             = (tr2, Returns False, Tick k2 # es4)"
  shows "pomodoro_loop w b cfg n es
           = (ClearScreen # tr1 @ bell cfg @ [Sleep 2, ClearScreen] @ tr2 @ bell cfg @ [Sleep 2]
                @ fst (pomodoro_loop w b cfg (Suc n) es4),
              snd (pomodoro_loop w b cfg (Suc n) es4))"
  by (subst pomodoro_loop.simps, simp only: pomodoro_pass_def assms prod.case outcome.case bool.case sleep_2.simps option.case sum.case, simp add: case_prod_beta)

lemma labels_differ: "session_label n (ascii ''Work'') \<noteq> session_label m (ascii ''Break'')"
proof
  assume "session_label n (ascii ''Work'') = session_label m (ascii ''Break'')"
  then have "rev (session_label n (ascii ''Work'')) = rev (session_label m (ascii ''Break''))"
    by simp
  then show False by (simp add: session_label_def)
qed


lemma pomodoro_work_interrupted_labels:
  assumes "countdown_timer (w * 60) (session_label n (ascii ''Work'')) RED cfg es = (tr1, Returns True, es1)"
  shows "list_all (\<lambda>x. x = session_label n (ascii ''Work''))
           (frame_labels (fst (pomodoro_loop w b cfg n es)))"
proof -
  have "list_all (\<lambda>x. x = session_label n (ascii ''Work''))
          (frame_labels (fst (countdown_timer (w * 60) (session_label n (ascii ''Work'')) RED cfg es)))"
    unfolding countdown_timer_def by (rule countdown_loop_labels)
  then have "list_all (\<lambda>x. x = session_label n (ascii ''Work'')) (frame_labels tr1)"
    unfolding assms by simp
  then show ?thesis
    unfolding pomodoro_work_interrupted [OF assms] by simp
qed

lemma pomodoro_no_pause_interrupt:
  assumes "1 \<le> w" and "list_all running_tick ws" and "length ws \<le> nat (w * 60)"
  shows "pomodoro_loop w b cfg n (ws @ CtrlC # rest)
           = (ClearScreen # loop_trace (w * 60) (session_label n (ascii ''Work'')) RED cfg True
                              (count_down (w * 60) (length ws)) @ [Print []],
              Returns ())"
proof -
  from assms(1) have w: "0 < w * 60" "0 \<le> w * 60" by simp_all
  have "countdown_timer (w * 60) (session_label n (ascii ''Work'')) RED cfg (ws @ CtrlC # rest)
      = (loop_trace (w * 60) (session_label n (ascii ''Work'')) RED cfg True
           (count_down (w * 60) (length ws)) @ [Print []], Returns True, rest)"
    unfolding countdown_timer_def using w assms(2,3) by (rule no_pause_interrupted)
  then show ?thesis by (rule pomodoro_work_interrupted)
qed

lemma pomodoro_no_pause_session:
  assumes "1 \<le> w" and "1 \<le> b"
    and "list_all running_tick ws" and "length ws = nat (w * 60) + 1"
    and "list_all running_tick bs" and "length bs = nat (b * 60) + 1"
  shows "pomodoro_loop w b cfg n (ws @ Tick k1 # bs @ Tick k2 # rest)
           = (ClearScreen # loop_trace (w * 60) (session_label n (ascii ''Work'')) RED cfg True
                              (count_down (w * 60) (nat (w * 60) + 1))
                @ bell cfg @ [Sleep 2, ClearScreen]
                @ loop_trace (b * 60) (session_label n (ascii ''Break'')) GREEN cfg True
                              (count_down (b * 60) (nat (b * 60) + 1))
                @ bell cfg @ [Sleep 2]
                @ fst (pomodoro_loop w b cfg (Suc n) rest),
              snd (pomodoro_loop w b cfg (Suc n) rest))"
proof -
  from assms(1) have w: "0 < w * 60" "0 \<le> w * 60" by simp_all
  from assms(2) have b: "0 < b * 60" "0 \<le> b * 60" by simp_all
  have c1: "countdown_timer (w * 60) (session_label n (ascii ''Work'')) RED cfg
              (ws @ Tick k1 # bs @ Tick k2 # rest)
      = (loop_trace (w * 60) (session_label n (ascii ''Work'')) RED cfg True
           (count_down (w * 60) (nat (w * 60) + 1)), Returns False, Tick k1 # bs @ Tick k2 # rest)"
    unfolding countdown_timer_def using w assms(3,4) by (rule no_pause_complete)
  have c2: "countdown_timer (b * 60) (session_label n (ascii ''Break'')) GREEN cfg
              (bs @ Tick k2 # rest)
      = (loop_trace (b * 60) (session_label n (ascii ''Break'')) GREEN cfg True
           (count_down (b * 60) (nat (b * 60) + 1)), Returns False, Tick k2 # rest)"
    unfolding countdown_timer_def using b assms(5,6) by (rule no_pause_complete)
  from c1 c2 show ?thesis by (rule pomodoro_session_complete)
qed

text \<open>
  Claim C5. In every pass of the Pomodoro loop: when the Work countdown is interrupted
  the loop ends there, and every countdown frame of the run carries the Work label
  (no Break label is a Work label); when Work returns without interrupt, the bell
  rings if it is enabled, the program sleeps two seconds, clears the screen and runs
  the Break countdown; an interrupted Break ends the loop; when Break returns without
  interrupt, the bell rings if enabled, the program sleeps two seconds and the loop
  goes on with the session number increased by one, starting with Work. For runs
  without pause keys the trace is given in full, both for an interrupt during Work and
  for a session that completes.
\<close>

theorem pomodoro_order:
  "(countdown_timer (w * 60) (session_label n (ascii ''Work'')) RED cfg es = (tr1, Returns True, es1)
      \<longrightarrow> pomodoro_loop w b cfg n es = (ClearScreen # tr1, Returns ())
          \<and> list_all (\<lambda>x. x = session_label n (ascii ''Work''))
               (frame_labels (fst (pomodoro_loop w b cfg n es))))
   \<and> session_label n (ascii ''Work'') \<noteq> session_label m (ascii ''Break'')
   \<and> (countdown_timer (w * 60) (session_label n (ascii ''Work'')) RED cfg es
         = (tr1, Returns False, Tick k1 # es2)
       \<and> countdown_timer (b * 60) (session_label n (ascii ''Break'')) GREEN cfg es2
         = (tr2, Returns True, es3)
      \<longrightarrow> pomodoro_loop w b cfg n es
           = (ClearScreen # tr1 @ bell cfg @ [Sleep 2, ClearScreen] @ tr2, Returns ()))
   \<and> (countdown_timer (w * 60) (session_label n (ascii ''Work'')) RED cfg es
         = (tr1, Returns False, Tick k1 # es2)
       \<and> countdown_timer (b * 60) (session_label n (ascii ''Break'')) GREEN cfg es2
         = (tr2, Returns False, Tick k2 # es4)
      \<longrightarrow> pomodoro_loop w b cfg n es
           = (ClearScreen # tr1 @ bell cfg @ [Sleep 2, ClearScreen] @ tr2 @ bell cfg @ [Sleep 2]
                @ fst (pomodoro_loop w b cfg (Suc n) es4),
              snd (pomodoro_loop w b cfg (Suc n) es4)))
   \<and> (1 \<le> w \<and> list_all running_tick ws \<and> length ws \<le> nat (w * 60)
      \<longrightarrow> pomodoro_loop w b cfg n (ws @ CtrlC # rest)
           = (ClearScreen # loop_trace (w * 60) (session_label n (ascii ''Work'')) RED cfg True
                              (count_down (w * 60) (length ws)) @ [Print []],
              Returns ()))
   \<and> (1 \<le> w \<and> 1 \<le> b
       \<and> list_all running_tick ws \<and> length ws = nat (w * 60) + 1
       \<and> list_all running_tick bs \<and> length bs = nat (b * 60) + 1
      \<longrightarrow> pomodoro_loop w b cfg n (ws @ Tick k1 # bs @ Tick k2 # rest)
           = (ClearScreen # loop_trace (w * 60) (session_label n (ascii ''Work'')) RED cfg True
                              (count_down (w * 60) (nat (w * 60) + 1))
                @ bell cfg @ [Sleep 2, ClearScreen]
                @ loop_trace (b * 60) (session_label n (ascii ''Break'')) GREEN cfg True
                              (count_down (b * 60) (nat (b * 60) + 1))
                @ bell cfg @ [Sleep 2]
                @ fst (pomodoro_loop w b cfg (Suc n) rest),
              snd (pomodoro_loop w b cfg (Suc n) rest)))
   \<and> pomodoro_mode w b cfg es = pomodoro_loop w b cfg 1 es
   \<and> bell cfg = (if bell_enabled cfg then [Bell] else [])"
  using pomodoro_work_interrupted [of w n cfg es tr1 es1 b]
    pomodoro_work_interrupted_labels [of w n cfg es tr1 es1 b]
    labels_differ [of n m]
    pomodoro_break_interrupted [of w n cfg es tr1 k1 es2 b tr2 es3]
    pomodoro_session_complete [of w n cfg es tr1 k1 es2 b tr2 k2 es4]
    pomodoro_no_pause_interrupt [of w ws b cfg n rest]
    pomodoro_no_pause_session [of w b ws bs cfg n k1 k2 rest]
  by (simp add: pomodoro_mode_def bell_def del: ascii_simps)


theorem pomodoro_order_witness:
  "(1::int) \<le> 1
   \<and> list_all running_tick (replicate 61 (Tick None))
   \<and> length (replicate 61 (Tick None)) = nat (1 * 60) + 1
   \<and> pomodoro_mode 1 1 default_config
        (replicate 61 (Tick None) @ Tick None # replicate 61 (Tick None) @ Tick None
           # [Tick None] @ CtrlC # [])
       = (ClearScreen # loop_trace (1 * 60) (session_label 1 (ascii ''Work'')) RED default_config True
                          (count_down (1 * 60) (nat (1 * 60) + 1))
            @ bell default_config @ [Sleep 2, ClearScreen]
            @ loop_trace (1 * 60) (session_label 1 (ascii ''Break'')) GREEN default_config True
                          (count_down (1 * 60) (nat (1 * 60) + 1))
            @ bell default_config @ [Sleep 2]
            @ (ClearScreen # loop_trace (1 * 60) (session_label (Suc 1) (ascii ''Work'')) RED
                               default_config True (count_down (1 * 60) (length [Tick None]))
                 @ [Print []]),
          Returns ())
   \<and> bell default_config = [Bell]"
proof -
  have r: "list_all running_tick (replicate 61 (Tick None))"
    by (rule running_replicate)
  have l: "length (replicate 61 (Tick None :: event)) = nat (1 * 60) + 1" by simp
  have r1: "list_all running_tick [Tick None]" "length [Tick None :: event] \<le> nat (1 * 60)"
    by (simp_all add: running_tick_def)
  have one: "(1::int) \<le> 1" by simp
  have s2: "pomodoro_loop 1 1 default_config (Suc 1) ([Tick None] @ CtrlC # [])
      = (ClearScreen # loop_trace (1 * 60) (session_label (Suc 1) (ascii ''Work'')) RED
                               default_config True (count_down (1 * 60) (length [Tick None]))
                 @ [Print []], Returns ())"
    using one r1
      pomodoro_order [where w = 1 and b = 1 and n = "Suc 1" and cfg = default_config
        and ws = "[Tick None]" and rest = "[]"]
    by blast
  have s1: "pomodoro_loop 1 1 default_config 1
        (replicate 61 (Tick None) @ Tick None # replicate 61 (Tick None) @ Tick None
           # [Tick None] @ CtrlC # [])
      = (ClearScreen # loop_trace (1 * 60) (session_label 1 (ascii ''Work'')) RED default_config True
                          (count_down (1 * 60) (nat (1 * 60) + 1))
            @ bell default_config @ [Sleep 2, ClearScreen]
            @ loop_trace (1 * 60) (session_label 1 (ascii ''Break'')) GREEN default_config True
                          (count_down (1 * 60) (nat (1 * 60) + 1))
            @ bell default_config @ [Sleep 2]
            @ fst (pomodoro_loop 1 1 default_config (Suc 1) ([Tick None] @ CtrlC # [])),
         snd (pomodoro_loop 1 1 default_config (Suc 1) ([Tick None] @ CtrlC # [])))"
    using one r l
      pomodoro_order [where w = 1 and b = 1 and n = 1 and cfg = default_config
        and ws = "replicate 61 (Tick None)" and bs = "replicate 61 (Tick None)"
        and ?k1.0 = None and ?k2.0 = None and rest = "[Tick None] @ CtrlC # []"]
    by blast
  have m: "pomodoro_mode 1 1 default_config
        (replicate 61 (Tick None) @ Tick None # replicate 61 (Tick None) @ Tick None
           # [Tick None] @ CtrlC # [])
      = pomodoro_loop 1 1 default_config 1
        (replicate 61 (Tick None) @ Tick None # replicate 61 (Tick None) @ Tick None
           # [Tick None] @ CtrlC # [])"
    by (simp add: pomodoro_mode_def)
  have b: "bell default_config = [Bell]"
    by (simp add: bell_def default_config_def)
  show ?thesis
    unfolding m s1 s2 using one r l b by (simp only: fst_conv snd_conv simp_thms)
qed


section \<open>The lines a frame prints\<close>


lemma segments_rows:
  "map_of SEGMENTS c = Some g \<Longrightarrow> length g = 4 \<and> (\<forall>row \<in> set g. 10 \<notin> set row)"
  unfolding SEGMENTS_def by (auto split: if_splits)

lemma segments_bold_rows:
  "map_of SEGMENTS_BOLD c = Some g \<Longrightarrow> length g = 4 \<and> (\<forall>row \<in> set g. 10 \<notin> set row)"
  unfolding SEGMENTS_BOLD_def by (auto split: if_splits)

lemma segs_rows:
  "map_of (segs bld) c = Some g \<Longrightarrow> length g = 4 \<and> (\<forall>row \<in> set g. 10 \<notin> set row)"
  using segments_rows [of c g] segments_bold_rows [of c g] by (simp add: segs_def split: if_splits)

lemma add_glyph_no_newline:
  assumes "length ls = 4" and "\<forall>row \<in> set ls. 10 \<notin> set row"
    and "length g = 4" and "\<forall>row \<in> set g. 10 \<notin> set row"
  shows "length (add_glyph ls g) = 4 \<and> (\<forall>row \<in> set (add_glyph ls g). 10 \<notin> set row)"
proof -
  from assms(1) obtain a b c d where ls: "ls = [a, b, c, d]" using length4 by blast
  from assms(3) obtain p q r s where g: "g = [p, q, r, s]" using length4 by blast
  from assms(2,4) show ?thesis unfolding ls g by (simp add: add_glyph_rows)
qed

lemma render_loop_no_newline:
  "length ls = 4 \<Longrightarrow> \<forall>row \<in> set ls. 10 \<notin> set row \<Longrightarrow>
   \<forall>row \<in> set (render_loop (segs bld) str ls). 10 \<notin> set row"
proof (induction str arbitrary: ls)
  case Nil
  then show ?case by simp
next
  case (Cons c cs)
  show ?case
  proof (cases "map_of (segs bld) c")
    case None
    with Cons show ?thesis by simp
  next
    case (Some g)
    from segs_rows [OF Some] have g: "length g = 4" "\<forall>row \<in> set g. 10 \<notin> set row" by simp_all
    from add_glyph_no_newline [OF Cons.prems g]
    have "length (add_glyph ls g) = 4" "\<forall>row \<in> set (add_glyph ls g). 10 \<notin> set row" by simp_all
    from Cons.IH [OF this] Some show ?thesis by simp
  qed
qed

lemma render_rows_no_newline: "\<forall>row \<in> set (render_rows bld str). 10 \<notin> set row"
  unfolding render_rows_segs by (rule render_loop_no_newline) simp_all

lemma no_newline_count: "10 \<notin> set s \<Longrightarrow> count_list s 10 = 0"
  by (simp add: count_list_0_iff)

lemma colors_no_newline:
  "10 \<notin> set RESET" "10 \<notin> set RED" "10 \<notin> set GREEN" "10 \<notin> set YELLOW" "10 \<notin> set BLUE"
  "10 \<notin> set MAGENTA" "10 \<notin> set CYAN" "10 \<notin> set GRAY" "10 \<notin> set WHITE" "10 \<notin> set BLACK"
  by (simp_all add: RESET_def RED_def GREEN_def YELLOW_def BLUE_def MAGENTA_def CYAN_def GRAY_def
      WHITE_def BLACK_def)

lemma get_color_no_newline: "10 \<notin> set col \<Longrightarrow> 10 \<notin> set (get_color cfg col)"
  by (simp add: get_color_def colors_no_newline)

lemma lines_printed_simps:
  "lines_printed [] = 0"
  "lines_printed (s # ps) = count_list s 10 + 1 + lines_printed ps"
  "lines_printed (ps @ qs) = lines_printed ps + lines_printed qs"
  by (simp_all add: lines_printed_def)

lemma lines_printed_rows:
  "\<forall>s \<in> set ps. 10 \<notin> set s \<Longrightarrow> lines_printed ps = length ps"
  by (induction ps) (simp_all add: lines_printed_simps no_newline_count)

lemma render_rows_length: "length (render_rows bld str) = 4"
proof -
  have "map length (render_rows bld str) = replicate 4 (sum_list (map (glyph_cols bld) str))"
    using render_loop_widths [of "replicate 4 []" 0 bld str] by (simp add: render_rows_segs)
  then show ?thesis by (metis length_map length_replicate)
qed

lemma lines_print_time:
  assumes "10 \<notin> set col"
  shows "lines_printed (print_time cfg w str col move_back) = (if move_back then 5 else 6)"
proof -
  define rows where "rows = map (\<lambda>line. replicate (nat (max 0 ((w - int (length line)) div 2))) 32
                        @ get_color cfg col @ line @ RESET) (render_rows (bold cfg) str)"
  have "\<forall>s \<in> set rows. 10 \<notin> set s"
    using render_rows_no_newline [of "bold cfg" str] get_color_no_newline [OF assms, of cfg]
    by (auto simp: rows_def colors_no_newline)
  then have "lines_printed rows = length rows" by (rule lines_printed_rows)
  also have "\<dots> = 4" by (simp add: rows_def render_rows_length)
  finally have "lines_printed rows = 4" .
  then show ?thesis
    by (simp add: print_time_def Let_def rows_def [symmetric] lines_printed_simps)
qed


lemma spaces_no_newline: "10 \<notin> set (spaces n)"
  by (simp add: spaces_def)

lemma lines_print_label:
  assumes "10 \<notin> set label" and "10 \<notin> set col"
  shows "lines_printed (print_label cfg w label col) = 2"
  using assms get_color_no_newline [OF assms(2), of cfg]
  by (simp add: print_label_def Let_def lines_printed_simps count_list_append no_newline_count
      spaces_no_newline colors_no_newline)

lemma dec_digits_no_newline: "10 \<notin> set (dec_digits n)"
  using dec_digits_chars [of 10 n] by auto

lemma fmt_1f_no_newline: "10 \<notin> set (fmt_1f x)"
  by (simp add: fmt_1f_def Let_def dec_digits_no_newline)

lemma lines_print_progress_bar:
  assumes "10 \<notin> set col"
  shows "lines_printed (print_progress_bar cfg w pr col) = 2"
  using get_color_no_newline [OF assms, of cfg]
  by (simp add: print_progress_bar_def Let_def lines_printed_simps count_list_append
      no_newline_count spaces_no_newline colors_no_newline fmt_1f_no_newline)

lemma paused_text_no_newline: "10 \<notin> set PAUSED_TEXT"
  by (simp add: PAUSED_TEXT_def)

lemma lines_stopwatch_frame:
  "lines_printed (frame_prints cfg w (StopwatchFrame e p)) = (if focus cfg \<and> \<not> p then 6 else 7)"
  using get_color_no_newline [of GRAY cfg]
  by (simp add: lines_printed_simps lines_print_time lines_print_label colors_no_newline
      count_list_append no_newline_count spaces_no_newline paused_text_no_newline)

lemma lines_countdown_frame:
  assumes "10 \<notin> set label" and "10 \<notin> set col"
  shows "lines_printed (frame_prints cfg w (CountdownFrame r p label col pr))
           = (if focus cfg then 8 else 9)"
  using assms get_color_no_newline [of GRAY cfg]
  by (simp add: lines_printed_simps lines_print_time lines_print_label lines_print_progress_bar
      colors_no_newline count_list_append no_newline_count spaces_no_newline
      paused_text_no_newline)

lemma lines_clock_frame:
  assumes "10 \<notin> set date_str"
  shows "lines_printed (frame_prints cfg w (ClockFrame move_back time_str date_str))
           = (if focus cfg then 5 else 7) + (if move_back then 0 else 1)"
  using assms
  by (simp add: lines_printed_simps lines_print_time lines_print_label colors_no_newline)

text \<open>
  Claim C2, at the stopwatch. A stopwatch frame prints seven lines, except in focus
  mode while running, where it prints six; the loop moves the cursor up by seven lines
  before every frame but the first, whatever the mode. With \<open>focus\<close> set and no key
  pressed, the first frame prints six lines and the second iteration moves up seven.
\<close>

theorem stopwatch_focus_lines:
  "lines_printed (frame_prints cfg w (StopwatchFrame e p)) = (if focus cfg \<and> \<not> p then 6 else 7)
   \<and> stopwatch_lines_to_move = 7
   \<and> fst (stopwatch_mode 0 [SwTick None 0 0, SwTick None 1 1])
       = [ClearScreen, Draw (StopwatchFrame 0 False), Sleep (1 / 10),
          MoveUp 7, Draw (StopwatchFrame 1 False), Sleep (1 / 10)]
   \<and> lines_printed (frame_prints (default_config\<lparr>focus := True\<rparr>) 80 (StopwatchFrame 0 False)) = 6"
proof -
  have a: "stopwatch_lines_to_move = 7"
    by (simp add: stopwatch_lines_to_move_def DISPLAY_LINES_WITH_LABEL_def)
  have b: "fst (stopwatch_mode 0 [SwTick None 0 0, SwTick None 1 1])
       = [ClearScreen, Draw (StopwatchFrame 0 False), Sleep (1 / 10),
          MoveUp 7, Draw (StopwatchFrame 1 False), Sleep (1 / 10)]"
    by (simp add: stopwatch_mode_def stopwatch_init_def stopwatch_tick_def stopwatch_key_def
        stopwatch_elapsed_def py_trunc_def Let_def a)
  have c: "lines_printed (frame_prints (default_config\<lparr>focus := True\<rparr>) 80 (StopwatchFrame 0 False)) = 6"
    by (simp add: lines_stopwatch_frame default_config_def del: frame_prints.simps)
  from a b c show ?thesis by (simp add: lines_stopwatch_frame del: frame_prints.simps)
qed


section \<open>Validation errors and the exit status\<close>


lemma main_color_conflict:
  "arg_white args \<Longrightarrow> arg_black args \<Longrightarrow> main args env = ([Print COLOR_MSG], Returns 1)"
  by (simp add: main_def)

lemma main_pomodoro_invalid:
  assumes "\<not> (arg_white args \<and> arg_black args)" and "truthy (arg_pomodoro args) = Some s"
    and "parse_pomodoro s = None \<or> (\<exists>wm bm. parse_pomodoro s = Some (wm, bm) \<and> (wm \<le> 0 \<or> bm \<le> 0))"
  shows "main args env = ([Print POMODORO_MSG], Returns 1)"
  using assms by (auto simp: main_def Let_def)

lemma main_timer_invalid:
  assumes "\<not> (arg_white args \<and> arg_black args)" and "truthy (arg_pomodoro args) = None"
    and "\<not> arg_stopwatch args" and "truthy (arg_timer args) = Some t"
  shows "parse_duration t = Inl (ValueError msg) \<Longrightarrow>
           main args env = ([Print (RED @ ascii ''Error: '' @ msg @ RESET)], Returns 0)"
    and "parse_duration t = Inr v \<Longrightarrow> v \<le> 0 \<Longrightarrow>
           main args env = ([Print (RED @ ascii ''Error: Duration must be positive'' @ RESET)], Returns 0)"
  using assms by (simp_all add: main_def Let_def timer_mode_def after_mode_def)

lemma parse_abc: "parse_duration (ascii ''abc'') = Inl (ValueError DURATION_MSG)"
  by (simp add: parse_duration_def parse_duration_try_def py_int_def to_ascii_def py_isspace_def)

lemma parse_zero: "parse_duration (ascii ''0'') = Inr 0"
  by (simp add: parse_duration_def parse_duration_try_def py_int_def to_ascii_def py_isspace_def)

lemma parse_pomodoro_zero: "parse_pomodoro (ascii ''0,5'') = Some (0, 5)"
  by (simp add: parse_pomodoro_def py_int_def to_ascii_def py_isspace_def)

text \<open>
  Claim C1, evaluated. The two validation errors of the timer (a duration that does
  not parse, here \<open>abc\<close>, and a duration that is not positive, here \<open>0\<close>) print one
  line and run no loop, and the process exits with status 0; the conflicting colour
  flags and non-positive Pomodoro minutes print one line, run no loop and exit with
  status 1.
\<close>

theorem main_timer_error_exit:
  "main (default_args\<lparr>arg_timer := Some (ascii ''abc'')\<rparr>) env
     = ([Print (RED @ ascii ''Error: '' @ DURATION_MSG @ RESET)], Returns 0)
   \<and> main (default_args\<lparr>arg_timer := Some (ascii ''0'')\<rparr>) env
     = ([Print (RED @ ascii ''Error: Duration must be positive'' @ RESET)], Returns 0)
   \<and> main (default_args\<lparr>arg_white := True, arg_black := True\<rparr>) env
     = ([Print COLOR_MSG], Returns 1)
   \<and> main (default_args\<lparr>arg_pomodoro := Some (ascii ''0,5'')\<rparr>) env
     = ([Print POMODORO_MSG], Returns 1)"
proof -
  have a: "main (default_args\<lparr>arg_timer := Some (ascii ''abc'')\<rparr>) env
     = ([Print (RED @ ascii ''Error: '' @ DURATION_MSG @ RESET)], Returns 0)"
    by (rule main_timer_invalid(1) [where t = "ascii ''abc''"])
       (simp_all add: default_args_def truthy_def parse_abc del: ascii_simps, simp)
  have b: "main (default_args\<lparr>arg_timer := Some (ascii ''0'')\<rparr>) env
     = ([Print (RED @ ascii ''Error: Duration must be positive'' @ RESET)], Returns 0)"
    by (rule main_timer_invalid(2) [where t = "ascii ''0''" and v = 0])
       (simp_all add: default_args_def truthy_def parse_zero del: ascii_simps, simp)
  have c: "main (default_args\<lparr>arg_white := True, arg_black := True\<rparr>) env
     = ([Print COLOR_MSG], Returns 1)"
    by (rule main_color_conflict) (simp_all add: default_args_def)
  have d: "main (default_args\<lparr>arg_pomodoro := Some (ascii ''0,5'')\<rparr>) env
     = ([Print POMODORO_MSG], Returns 1)"
    by (rule main_pomodoro_invalid [where s = "ascii ''0,5''"])
       (simp_all add: default_args_def truthy_def parse_pomodoro_zero del: ascii_simps, simp)
  from a b c d show ?thesis by blast
qed


end
